theory Spec2Isabelle
  imports Main
begin

section \<open>Errors\<close>

text \<open>
  Every way in which the C++ code can stop instead of returning is a value of \<open>error\<close>;
  a fallible operation returns \<open>error + 'a\<close> with \<open>Inl\<close> for the failure.
\<close>

datatype error =
    OutOfRange \<comment> \<open>\<open>std::out_of_range\<close> thrown by \<open>std::vector::at\<close>\<close>
  | LengthError \<comment> \<open>\<open>std::vector::resize\<close> called with a negative size\<close>
  | AssertFailed \<comment> \<open>a failed \<open>assert\<close> aborts the process\<close>
  | UndefinedBehaviour \<comment> \<open>unchecked \<open>operator[]\<close> outside the storage\<close>
  | AssignToDestroyed \<comment> \<open>assignment to a cell whose destructor has run: undefined\<close>
  | InvalidInputCharacter \<comment> \<open>a cell constructor rejecting its character\<close>

definition newline :: char where
  "newline = CHR 0x0A"

section \<open>Machine integers\<close>

text \<open>
  A C++ \<open>int\<close> has 32 bits. The model keeps \<open>int\<close> values as integers and writes the
  wrap-around out: \<open>int32 v\<close> is the value in \<open>[INT_MIN, INT_MAX]\<close> congruent to \<open>v\<close>
  modulo \<open>2^32\<close>, which is what the two's-complement addition and multiplication of
  the machine leave when the exact result \<open>v\<close> does not fit. (The language calls signed
  overflow undefined; the model follows the machine.)
\<close>

definition INT_MAX :: int where
  "INT_MAX = 2147483647"

definition INT_MIN :: int where
  "INT_MIN = - 2147483648"

definition int32 :: "int \<Rightarrow> int" where
  "int32 v = (v + 2147483648) mod 4294967296 - 2147483648"

definition add32 :: "int \<Rightarrow> int \<Rightarrow> int" where
  "add32 a b = int32 (a + b)"

definition mul32 :: "int \<Rightarrow> int \<Rightarrow> int" where
  "mul32 a b = int32 (a * b)"

section \<open>Cells\<close>

text \<open>
  \<open>class AbstractCell\<close> has the two members \<open>alive\<close> and \<open>border\<close>. Its only
  constructor, \<open>AbstractCell(bool border_ = false) : border(border_) {}\<close>, initialises
  \<open>border\<close> and leaves \<open>alive\<close> uninitialised; the first argument of
  \<open>AbstractCell_ctor\<close> is the indeterminate content of that member.
\<close>

record AbstractCell =
  alive :: bool
  border :: bool

definition AbstractCell_ctor :: "bool \<Rightarrow> bool \<Rightarrow> AbstractCell" where
  "AbstractCell_ctor indet border0 = \<lparr>alive = indet, border = border0\<rparr>"

definition is_alive :: "'a AbstractCell_scheme \<Rightarrow> bool" where
  "is_alive c = alive c"

definition is_border :: "'a AbstractCell_scheme \<Rightarrow> bool" where
  "is_border c = border c"

text \<open>\<open>class ConwayCell : public AbstractCell\<close> adds no member;
  \<open>ConwayCell(bool border_ = false) : AbstractCell(border_) {}\<close>.\<close>

type_synonym ConwayCell = AbstractCell

definition ConwayCell_bool :: "bool \<Rightarrow> bool \<Rightarrow> ConwayCell" where
  "ConwayCell_bool indet border0 = AbstractCell_ctor indet border0"








text \<open>
  The template parameter \<open>T\<close> of \<open>Life<T>\<close>, as the operations \<open>Life\<close> uses:
  the value of the expression \<open>T(true)\<close>, the constructor \<open>T((char) input)\<close> (its
  bodies are not part of the sources, so it is a parameter and may fail),
  \<open>is_alive()\<close>, \<open>cell + neighbors\<close> (\<open>operator+\<close>, declared as a friend of each
  cell class, body not part of the sources), and whether the destructor of \<open>T\<close> is
  trivial. \<open>Life\<close> calls the destructor of a stored cell explicitly and then assigns
  to that cell. For a class with a trivial destructor the call has no effect. For a
  class with a non-trivial destructor the call ends the lifetime of the stored object,
  and the assignment that follows calls a member function of an object that no longer
  exists: undefined behaviour. \<open>AbstractCell\<close> declares \<open>virtual ~AbstractCell() {}\<close>
  and \<open>Cell\<close> declares \<open>~Cell()\<close>, so no cell class of the sources has a trivial
  destructor.
\<close>

record 'c cell_class =
  T_true :: "'c"
  T_char :: "char \<Rightarrow> error + 'c"
  T_is_alive :: "'c \<Rightarrow> bool"
  T_plus :: "'c \<Rightarrow> 'c list \<Rightarrow> 'c"
  T_trivial_dtor :: bool

section \<open>The board\<close>

record 'c Life =
  height :: int
  width :: int
  board :: "'c list"
  generation :: int
  population :: int

text \<open>\<open>std::vector::at\<close> (checked) and \<open>operator[]\<close> (unchecked). The index is
  converted to an unsigned size, so a negative index is out of range too.\<close>

definition vector_at :: "'c list \<Rightarrow> int \<Rightarrow> error + 'c" where
  "vector_at v i = (if 0 \<le> i \<and> i < int (length v) then Inr (v ! nat i) else Inl OutOfRange)"

definition vector_index :: "'c list \<Rightarrow> int \<Rightarrow> error + 'c" where
  "vector_index v i =
     (if 0 \<le> i \<and> i < int (length v) then Inr (v ! nat i) else Inl UndefinedBehaviour)"

text \<open>
  \<open>T& at(int x, int y) { return board.at((x + 1) * (width + 2) + y + 1); }\<close>.
  \<open>at_index\<close> is the index expression as the machine computes it, every operation in
  \<open>int\<close>; \<open>flat_index\<close> is its exact value. \<open>at\<close> reads through the reference
  returned; \<open>at_assign\<close> writes through it, as the statement \<open>at(x, y) = c\<close> does:
  the slot then holds \<open>c\<close>.
\<close>

definition flat_index :: "'c Life \<Rightarrow> int \<Rightarrow> int \<Rightarrow> int" where
  "flat_index l x y = (x + 1) * (width l + 2) + y + 1"

definition at_index :: "'c Life \<Rightarrow> int \<Rightarrow> int \<Rightarrow> int" where
  "at_index l x y = add32 (add32 (mul32 (add32 x 1) (add32 (width l) 2)) y) 1"

definition at :: "'c Life \<Rightarrow> int \<Rightarrow> int \<Rightarrow> error + 'c" where
  "at l x y = vector_at (board l) (at_index l x y)"

definition at_assign :: "'c Life \<Rightarrow> int \<Rightarrow> int \<Rightarrow> 'c \<Rightarrow> error + 'c Life" where
  "at_assign l x y c =
     (let i = at_index l x y
      in if 0 \<le> i \<and> i < int (length (board l))
         then Inr (l\<lparr>board := (board l)[nat i := c]\<rparr>)
         else Inl OutOfRange)"

text \<open>
  The two statements \<open>at(x, y).~T(); at(x, y) = c;\<close>. The first evaluates \<open>at(x, y)\<close>,
  which may throw, and runs the destructor of the cell stored there. The second
  assigns to the destroyed cell; see \<open>cell_class\<close>.
\<close>

definition destroy_then_assign ::
  "'c cell_class \<Rightarrow> 'c Life \<Rightarrow> int \<Rightarrow> int \<Rightarrow> 'c \<Rightarrow> error + 'c Life" where
  "destroy_then_assign T l x y c =
     (case at l x y of
        Inl e \<Rightarrow> Inl e
      | Inr destroyed \<Rightarrow>
          if T_trivial_dtor T then at_assign l x y c else Inl AssignToDestroyed)"

section \<open>Generation stepping\<close>

text \<open>The eight indices into \<open>temp_board\<close> read for the cell at \<open>(x, y)\<close>, in the
  order of the array initialiser of \<open>evolve_all\<close>.\<close>

definition neighbor_indices :: "int \<Rightarrow> int \<Rightarrow> int \<Rightarrow> int list" where
  "neighbor_indices w x y =
     [(x + 1) * (w + 2) + y,
      (x + 2) * (w + 2) + y + 1,
      (x + 1) * (w + 2) + y + 2,
      x * (w + 2) + y + 1,
      (x + 2) * (w + 2) + y,
      (x + 2) * (w + 2) + y + 2,
      x * (w + 2) + y + 2,
      x * (w + 2) + y]"

fun collect :: "(error + 'a) list \<Rightarrow> error + 'a list" where
  "collect [] = Inr []"
| "collect (r # rs) =
     (case r of
        Inl e \<Rightarrow> Inl e
      | Inr v \<Rightarrow> (case collect rs of Inl e \<Rightarrow> Inl e | Inr vs \<Rightarrow> Inr (v # vs)))"

definition neighbors :: "'c list \<Rightarrow> int \<Rightarrow> int \<Rightarrow> int \<Rightarrow> error + 'c list" where
  "neighbors temp_board w x y = collect (map (vector_index temp_board) (neighbor_indices w x y))"

text \<open>
  The body of the inner loop, for one \<open>(x, y)\<close>: the cell is read through \<open>at\<close>, the
  neighbours from \<open>temp_board\<close>, \<open>population++\<close> counts an alive new cell, and the old
  cell is destroyed and then assigned the new one. (The loops call this for interior
  coordinates only; on a board whose storage size fits \<open>int\<close> none of the neighbour
  indices overflows there.)
\<close>

definition evolve_cell :: "'c cell_class \<Rightarrow> 'c list \<Rightarrow> int \<Rightarrow> int \<Rightarrow> 'c Life \<Rightarrow> error + 'c Life" where
  "evolve_cell T temp_board x y l =
     (case at l x y of
        Inl e \<Rightarrow> Inl e
      | Inr cell \<Rightarrow>
          (case neighbors temp_board (width l) x y of
             Inl e \<Rightarrow> Inl e
           | Inr ns \<Rightarrow>
               (let new_cell = T_plus T cell ns;
                    l1 = (if T_is_alive T new_cell
                          then l\<lparr>population := add32 (population l) 1\<rparr> else l)
                in destroy_then_assign T l1 x y new_cell)))"

lemma at_assign_dims:
  "at_assign l x y c = Inr l' \<Longrightarrow>
     width l' = width l \<and> height l' = height l \<and> length (board l') = length (board l)
     \<and> generation l' = generation l \<and> population l' = population l"
  by (auto simp: at_assign_def Let_def split: if_splits)

lemma destroy_then_assign_dims:
  "destroy_then_assign T l x y c = Inr l' \<Longrightarrow>
     width l' = width l \<and> height l' = height l \<and> length (board l') = length (board l)
     \<and> generation l' = generation l \<and> population l' = population l"
  by (auto simp: destroy_then_assign_def split: sum.splits if_splits dest!: at_assign_dims)

lemma evolve_cell_dims:
  "evolve_cell T tb x y l = Inr l' \<Longrightarrow>
     width l' = width l \<and> height l' = height l \<and> length (board l') = length (board l)"
  by (auto simp: evolve_cell_def Let_def split: sum.splits if_splits
           dest!: destroy_then_assign_dims)

text \<open>\<open>for (int y = 0; y < width; y++)\<close>, entered at \<open>y\<close>. The increment is taken
  below \<open>width\<close>, itself an \<open>int\<close>, and cannot overflow; likewise \<open>x++\<close> below
  \<open>height\<close> in the outer loop.\<close>

function evolve_row :: "'c cell_class \<Rightarrow> 'c list \<Rightarrow> int \<Rightarrow> int \<Rightarrow> 'c Life \<Rightarrow> error + 'c Life" where
  "evolve_row T temp_board x y l =
     (if y < width l then
        (case evolve_cell T temp_board x y l of
           Inl e \<Rightarrow> Inl e
         | Inr l' \<Rightarrow> evolve_row T temp_board x (y + 1) l')
      else Inr l)"
  by pat_completeness auto
termination
  by (relation "measure (\<lambda>(T, tb, x, y, l). nat (width l - y))")
     (auto dest!: evolve_cell_dims)

declare evolve_row.simps [simp del]

lemma evolve_row_dims:
  "evolve_row T tb x y l = Inr l' \<Longrightarrow>
     width l' = width l \<and> height l' = height l \<and> length (board l') = length (board l)"
proof (induction T tb x y l rule: evolve_row.induct)
  case (1 T tb x y l)
  show ?case
  proof (cases "y < width l")
    case True
    with "1.prems" obtain l1 where
      s: "evolve_cell T tb x y l = Inr l1" and r: "evolve_row T tb x (y + 1) l1 = Inr l'"
      by (auto simp: evolve_row.simps[of T tb x y l] split: sum.splits)
    from "1.IH"[OF True s r] evolve_cell_dims[OF s] show ?thesis by simp
  next
    case False
    with "1.prems" show ?thesis by (simp add: evolve_row.simps[of T tb x y l])
  qed
qed

text \<open>\<open>for (int x = 0; x < height; x++)\<close>, entered at \<open>x\<close>.\<close>

function evolve_rows :: "'c cell_class \<Rightarrow> 'c list \<Rightarrow> int \<Rightarrow> 'c Life \<Rightarrow> error + 'c Life" where
  "evolve_rows T temp_board x l =
     (if x < height l then
        (case evolve_row T temp_board x 0 l of
           Inl e \<Rightarrow> Inl e
         | Inr l' \<Rightarrow> evolve_rows T temp_board (x + 1) l')
      else Inr l)"
  by pat_completeness auto
termination
  by (relation "measure (\<lambda>(T, tb, x, l). nat (height l - x))")
     (auto dest!: evolve_row_dims)

declare evolve_rows.simps [simp del]

definition evolve_all :: "'c cell_class \<Rightarrow> 'c Life \<Rightarrow> error + 'c Life" where
  "evolve_all T l =
     (let l0 = l\<lparr>population := 0\<rparr>;
          temp_board = board l0
      in case evolve_rows T temp_board 0 l0 of
           Inl e \<Rightarrow> Inl e
         | Inr l' \<Rightarrow> Inr (l'\<lparr>generation := add32 (generation l') 1\<rparr>))"

section \<open>Construction\<close>

text \<open>
  \<open>Life(std::istream& in, int h, int w)\<close>. \<open>Life_resized\<close> is the object after
  \<open>board.resize((width + 2) * (height + 2), T(true))\<close>, given the cell \<open>T(true)\<close>:
  the size is computed in \<open>int\<close> and converted to an unsigned size, so a negative
  value is a size no vector can have. The stream is the list of the characters
  still to be read; \<open>in.get()\<close> on the empty list is \<open>EOF\<close>. \<open>Life_read\<close> is the
  \<open>while (true)\<close> loop with its local variables \<open>x\<close> and \<open>y\<close>, and returns the final
  \<open>x\<close> for the assertion after the loop.
\<close>

definition Life_resized :: "'c \<Rightarrow> int \<Rightarrow> int \<Rightarrow> error + 'c Life" where
  "Life_resized border_cell h w =
     (let n = mul32 (add32 w 2) (add32 h 2)
      in if n < 0 then Inl LengthError
         else Inr \<lparr>height = h, width = w, board = replicate (nat n) border_cell,
                   generation = 0, population = 0\<rparr>)"

fun Life_read :: "'c cell_class \<Rightarrow> string \<Rightarrow> int \<Rightarrow> int \<Rightarrow> 'c Life \<Rightarrow> error + (int \<times> 'c Life)" where
  "Life_read T [] x y l = Inr (x, l)"
| "Life_read T (input # rest) x y l =
     (if input = newline \<and> y = 0 then Inr (x, l)
      else if input = newline then
        (if y = width l then Life_read T rest (add32 x 1) 0 l else Inl AssertFailed)
      else
        (case T_char T input of
           Inl e \<Rightarrow> Inl e
         | Inr new_cell \<Rightarrow>
             (let l1 = (if T_is_alive T new_cell
                        then l\<lparr>population := add32 (population l) 1\<rparr> else l)
              in case destroy_then_assign T l1 x y new_cell of
                   Inl e \<Rightarrow> Inl e
                 | Inr l2 \<Rightarrow> Life_read T rest x (add32 y 1) l2)))"

definition Life_ctor :: "'c cell_class \<Rightarrow> string \<Rightarrow> int \<Rightarrow> int \<Rightarrow> error + 'c Life" where
  "Life_ctor T inp h w =
     (case Life_resized (T_true T) h w of
        Inl e \<Rightarrow> Inl e
      | Inr l \<Rightarrow>
          (case Life_read T inp 0 0 l of
             Inl e \<Rightarrow> Inl e
           | Inr (x, l') \<Rightarrow> if x = height l' then Inr l' else Inl AssertFailed))"

text \<open>
  \<open>Life(std::istream& in)\<close> of \<open>Life.h\<close>, which infers the dimensions from the text.
  Its loop keeps \<open>last_char_was_newline\<close>, \<open>width\<close>, \<open>height\<close> and \<open>temp_board\<close>; it has
  no assertion and no checked access. It does not set \<open>generation\<close> and \<open>population\<close>.
  The cell classes of \<open>Life.h\<close> have no constructor from \<open>bool\<close>: there \<open>new T(true)\<close>
  converts \<open>true\<close> to the character with code 1 and calls \<open>T(const char&)\<close>, so the
  border cell \<open>b\<close> is built by the character constructor, the first cell constructed
  on every path. (\<open>Life.h\<close> stores each cell behind a \<open>Cell\<close> pointer wrapper; the
  model stores the cell.)
\<close>

record 'c Life_h =
  height_h :: int
  width_h :: int
  board_h :: "'c list"

fun Life_h_read :: "'c cell_class \<Rightarrow> 'c \<Rightarrow> string \<Rightarrow> bool \<Rightarrow> int \<Rightarrow> int \<Rightarrow> 'c list \<Rightarrow> error + (int \<times> int \<times> 'c list)" where
  "Life_h_read T b [] last_char_was_newline w h temp_board =
     (if last_char_was_newline then Inr (w, h, temp_board)
      else Inr (w, add32 h 1, temp_board @ [b]))"
| "Life_h_read T b (input # rest) last_char_was_newline w h temp_board =
     (if input = newline then
        (if last_char_was_newline then Inr (w, h, temp_board)
         else Life_h_read T b rest True w (add32 h 1) (temp_board @ [b]))
      else
        (let w1 = (if h < 1 then add32 w 1 else w);
             tb1 = (if last_char_was_newline then temp_board @ [b] else temp_board)
         in case T_char T input of
              Inl e \<Rightarrow> Inl e
            | Inr new_cell \<Rightarrow> Life_h_read T b rest False w1 h (tb1 @ [new_cell])))"

definition Life_h_ctor :: "'c cell_class \<Rightarrow> string \<Rightarrow> error + 'c Life_h" where
  "Life_h_ctor T inp =
     (case T_char T (CHR 0x01) of
        Inl e \<Rightarrow> Inl e
      | Inr b \<Rightarrow>
          (case Life_h_read T b inp True 0 0 [] of
             Inl e \<Rightarrow> Inl e
           | Inr (w, h, tb) \<Rightarrow>
               (let temp_board = tb @ replicate (nat (add32 w 2)) b
                in Inr \<lparr>height_h = h, width_h = w,
                        board_h = replicate (nat (add32 w 2)) b @ temp_board\<rparr>)))"

section \<open>Iterators\<close>

text \<open>
  \<open>Life::iterator\<close> holds a reference to its \<open>Life\<close> and the coordinates \<open>x\<close>, \<open>y\<close>.
  All iterators below belong to the one \<open>Life\<close> passed along, so the address comparison
  of \<open>operator==\<close> is true and the coordinates decide.
\<close>

record iterator =
  it_x :: int
  it_y :: int

definition Life_begin :: "'c Life \<Rightarrow> iterator" where
  "Life_begin l = \<lparr>it_x = 0, it_y = 0\<rparr>"

definition Life_end :: "'c Life \<Rightarrow> iterator" where
  "Life_end l = \<lparr>it_x = height l - 1, it_y = width l\<rparr>"

definition iterator_incr :: "'c Life \<Rightarrow> iterator \<Rightarrow> iterator" where
  "iterator_incr l it =
     (let y1 = it_y it + 1
      in if y1 \<ge> width l then \<lparr>it_x = it_x it + 1, it_y = 0\<rparr>
         else \<lparr>it_x = it_x it, it_y = y1\<rparr>)"

definition iterator_eq :: "iterator \<Rightarrow> iterator \<Rightarrow> bool" where
  "iterator_eq a b = (it_x a = it_x b \<and> it_y a = it_y b)"

definition iterator_deref :: "'c Life \<Rightarrow> iterator \<Rightarrow> error + 'c" where
  "iterator_deref l it = at l (it_x it) (it_y it)"

section \<open>Repeated stepping\<close>

text \<open>A driver that calls \<open>evolve_all\<close> \<open>n\<close> times in a row; the first failure ends
  the run.\<close>

fun evolve_n :: "'c cell_class \<Rightarrow> nat \<Rightarrow> 'c Life \<Rightarrow> error + 'c Life" where
  "evolve_n T 0 l = Inr l"
| "evolve_n T (Suc n) l =
     (case evolve_all T l of Inl e \<Rightarrow> Inl e | Inr l' \<Rightarrow> evolve_n T n l')"

section \<open>Well-formed boards\<close>

text \<open>A board is valid when its dimensions are non-negative and its storage has the
  \<open>(height + 2) * (width + 2)\<close> cells the constructor allocates.\<close>

definition valid :: "'c Life \<Rightarrow> bool" where
  "valid l = (0 \<le> height l \<and> 0 \<le> width l
     \<and> int (length (board l)) = (height l + 2) * (width l + 2))"

text \<open>The storage size \<open>(height + 2) * (width + 2)\<close> is an \<open>int\<close>, as it is on every
  board the constructor builds: the constructor computes the size in \<open>int\<close>.\<close>

definition storage_fits :: "'c Life \<Rightarrow> bool" where
  "storage_fits l = ((height l + 2) * (width l + 2) \<le> INT_MAX)"

text \<open>Physical index \<open>i\<close> is an interior position: its row is in \<open>1..height\<close> and its
  column in \<open>1..width\<close>.\<close>

definition interior :: "int \<Rightarrow> int \<Rightarrow> int \<Rightarrow> bool" where
  "interior h w i =
     (1 \<le> i div (w + 2) \<and> i div (w + 2) \<le> h \<and> 1 \<le> i mod (w + 2) \<and> i mod (w + 2) \<le> w)"

text \<open>Every frame position (a physical position that is not interior) holds a cell
  that \<open>isb\<close> accepts.\<close>

definition frame_bordered :: "('c \<Rightarrow> bool) \<Rightarrow> 'c Life \<Rightarrow> bool" where
  "frame_bordered isb l =
     list_all (\<lambda>i. interior (height l) (width l) (int i) \<or> isb (board l ! i))
       [0..<length (board l)]"

section \<open>The step as a pure function\<close>

text \<open>
  The board one generation later, as a function of the old board alone: every interior
  position \<open>i\<close>, at row \<open>i div (w + 2)\<close> and column \<open>i mod (w + 2)\<close>, gets
  \<open>cell + neighbors\<close> of the old cell and the old neighbours; every other position
  keeps its cell. Nothing here depends on the order in which positions are computed.
\<close>

definition new_cell_at :: "'c cell_class \<Rightarrow> int \<Rightarrow> 'c list \<Rightarrow> int \<Rightarrow> 'c" where
  "new_cell_at T w old i =
     (let x = i div (w + 2) - 1; y = i mod (w + 2) - 1
      in T_plus T (old ! nat i) (map (\<lambda>j. old ! nat j) (neighbor_indices w x y)))"

definition step_pure :: "'c cell_class \<Rightarrow> int \<Rightarrow> int \<Rightarrow> 'c list \<Rightarrow> 'c list" where
  "step_pure T h w old =
     map (\<lambda>i. if interior h w (int i) then new_cell_at T w old (int i) else old ! i)
       [0..<length old]"

text \<open>The number of interior positions of a board whose cell is alive.\<close>

definition alive_count :: "('c \<Rightarrow> bool) \<Rightarrow> int \<Rightarrow> int \<Rightarrow> 'c list \<Rightarrow> int" where
  "alive_count alv h w b =
     int (length (filter (\<lambda>i. interior h w (int i) \<and> alv (b ! i)) [0..<length b]))"

text \<open>
  The state of a row-major scan that has written the cells of \<open>target\<close> to all interior
  positions below the flat index \<open>k\<close>: the first \<open>k\<close> cells are the target's, the rest
  are still the board's, and the population counts the alive target cells written.
  \<open>frame_agrees\<close>: the target has the board's length and its cells outside the interior.
\<close>

definition scan_state :: "('c \<Rightarrow> bool) \<Rightarrow> 'c list \<Rightarrow> 'c Life \<Rightarrow> int \<Rightarrow> 'c Life" where
  "scan_state alv target l k =
     l\<lparr>board := take (nat k) target @ drop (nat k) (board l),
       population := int (length (filter
         (\<lambda>i. interior (height l) (width l) (int i) \<and> alv (target ! i)) [0..<nat k]))\<rparr>"

definition frame_agrees :: "'c list \<Rightarrow> 'c Life \<Rightarrow> bool" where
  "frame_agrees target l =
     (length target = length (board l)
      \<and> list_all (\<lambda>i. interior (height l) (width l) (int i) \<or> target ! i = board l ! i)
           [0..<length (board l)])"

section \<open>Board text\<close>

text \<open>
  The text of a board: every row followed by a newline. \<open>text_ok\<close>: the text has
  \<open>h\<close> rows of \<open>w\<close> characters each, none of them a newline and each accepted by the
  cell constructor (a board with rows has a positive width). \<open>parsed_board\<close> is the
  storage such a text describes: the parsed character at every interior position,
  \<open>T(true)\<close> everywhere else. \<open>Life_init\<close> is the board right after \<open>resize\<close>
  when the size fits \<open>int\<close> (lemma \<open>Life_resized_exact\<close>).
\<close>

definition board_text :: "string list \<Rightarrow> string" where
  "board_text rows = concat (map (\<lambda>r. r @ [newline]) rows)"

definition text_ok :: "'c cell_class \<Rightarrow> int \<Rightarrow> int \<Rightarrow> string list \<Rightarrow> bool" where
  "text_ok T h w rows =
     (int (length rows) = h \<and> 0 \<le> w \<and> (h = 0 \<or> 0 < w)
      \<and> list_all (\<lambda>r. int (length r) = w
                     \<and> list_all (\<lambda>c. c \<noteq> newline \<and> \<not> isl (T_char T c)) r) rows)"

definition parsed_board :: "'c cell_class \<Rightarrow> int \<Rightarrow> int \<Rightarrow> string list \<Rightarrow> 'c list" where
  "parsed_board T h w rows =
     map (\<lambda>i. if interior h w (int i)
               then projr (T_char T (rows ! nat (int i div (w + 2) - 1)
                                          ! nat (int i mod (w + 2) - 1)))
               else T_true T)
       [0..<nat ((w + 2) * (h + 2))]"

definition Life_init :: "'c cell_class \<Rightarrow> int \<Rightarrow> int \<Rightarrow> 'c Life" where
  "Life_init T h w =
     \<lparr>height = h, width = w, board = replicate (nat ((w + 2) * (h + 2))) (T_true T),
      generation = 0, population = 0\<rparr>"

section \<open>The Conway cell\<close>

text \<open>
  Modelled from the spec: the body of \<open>ConwayCell::ConwayCell(const char&)\<close> is not part
  of the sources. The spec's \<open>parse\<close>: \<open>'*'\<close> is alive, \<open>'.'\<close> is dead, any other
  character fails with InvalidInputCharacter; the cell is a non-border interior cell.
\<close>

definition ConwayCell_char :: "char \<Rightarrow> error + ConwayCell" where
  "ConwayCell_char input =
     (if input = CHR ''*'' then Inr \<lparr>alive = True, border = False\<rparr>
      else if input = CHR ''.'' then Inr \<lparr>alive = False, border = False\<rparr>
      else Inl InvalidInputCharacter)"

text \<open>
  Modelled from the spec: the bodies of \<open>ConwayCell::evolve\<close> and of the friend
  \<open>operator+\<close> are not part of the sources. The spec's Conway rule: border neighbours
  count as dead; a border cell's evolve is a no-op; any other cell is alive next iff
  (alive and exactly 2 or 3 of the neighbours are alive) or (dead and exactly 3 are).
\<close>

definition live_neighbors :: "ConwayCell list \<Rightarrow> nat" where
  "live_neighbors ns = length (filter (\<lambda>n. is_alive n \<and> \<not> is_border n) ns)"

definition ConwayCell_evolve :: "ConwayCell \<Rightarrow> ConwayCell list \<Rightarrow> ConwayCell" where
  "ConwayCell_evolve c ns =
     (if is_border c then c
      else c\<lparr>alive := (is_alive c \<and> (live_neighbors ns = 2 \<or> live_neighbors ns = 3))
                       \<or> (\<not> is_alive c \<and> live_neighbors ns = 3)\<rparr>)"

text \<open>\<open>Life<ConwayCell>\<close>: the template parameter instantiated with the Conway cell;
  the argument is the indeterminate \<open>alive\<close> of the temporary \<open>ConwayCell(true)\<close>.
  The destructor of \<open>ConwayCell\<close> is virtual, hence not trivial.\<close>

definition ConwayCell_class :: "bool \<Rightarrow> ConwayCell cell_class" where
  "ConwayCell_class indet =
     \<lparr>T_true = ConwayCell_bool indet True, T_char = ConwayCell_char,
      T_is_alive = is_alive, T_plus = ConwayCell_evolve, T_trivial_dtor = False\<rparr>"

text \<open>
  \<open>Life<T>\<close> for a cell type \<open>T\<close> that has the members and the operations of
  \<open>ConwayCell\<close> and a trivial destructor (no virtual member function): the explicit
  destructor call of \<open>Life\<close> has no effect on it. It shows what the loops of \<open>Life\<close>
  compute apart from that call.
\<close>

definition plain_cells :: "bool \<Rightarrow> ConwayCell cell_class" where
  "plain_cells indet =
     \<lparr>T_true = ConwayCell_bool indet True, T_char = ConwayCell_char,
      T_is_alive = is_alive, T_plus = ConwayCell_evolve, T_trivial_dtor = True\<rparr>"

section \<open>The other cell classes\<close>



section \<open>Example boards\<close>

text \<open>A 3 by 3 board whose 25 physical cells are marked with their physical
  (row, column) position.\<close>

definition marker_board :: "(int \<times> int) Life" where
  "marker_board =
     \<lparr>height = 3, width = 3, board = map (\<lambda>i. (int i div 5, int i mod 5)) [0..<25],
      generation = 0, population = 0\<rparr>"

definition cB :: ConwayCell where "cB = \<lparr>alive = False, border = True\<rparr>"
definition cA :: ConwayCell where "cA = \<lparr>alive = True, border = False\<rparr>"
definition cD :: ConwayCell where "cD = \<lparr>alive = False, border = False\<rparr>"

text \<open>The vertical blinker on a 3 by 3 Conway board, and the horizontal one.\<close>

definition blinker :: "ConwayCell Life" where
  "blinker =
     \<lparr>height = 3, width = 3,
      board = [cB, cB, cB, cB, cB,
               cB, cD, cA, cD, cB,
               cB, cD, cA, cD, cB,
               cB, cD, cA, cD, cB,
               cB, cB, cB, cB, cB],
      generation = 0, population = 3\<rparr>"

definition blinker' :: "ConwayCell Life" where
  "blinker' =
     \<lparr>height = 3, width = 3,
      board = [cB, cB, cB, cB, cB,
               cB, cD, cD, cD, cB,
               cB, cA, cA, cA, cB,
               cB, cD, cD, cD, cB,
               cB, cB, cB, cB, cB],
      generation = 1, population = 3\<rparr>"

text \<open>The rows of the vertical blinker.\<close>

definition blinker_rows :: "string list" where
  "blinker_rows = [''.*.'', ''.*.'', ''.*.'']"


text \<open>The Conway board of height 0 and width 1, six frame cells and no interior, when
  the uninitialised \<open>alive\<close> of \<open>ConwayCell(true)\<close> reads as true.\<close>

definition live_frame_board :: "ConwayCell Life" where
  "live_frame_board =
     \<lparr>height = 0, width = 1,
      board = [\<lparr>alive = True, border = True\<rparr>, \<lparr>alive = True, border = True\<rparr>,
               \<lparr>alive = True, border = True\<rparr>, \<lparr>alive = True, border = True\<rparr>,
               \<lparr>alive = True, border = True\<rparr>, \<lparr>alive = True, border = True\<rparr>],
      generation = 0, population = 0\<rparr>"

text \<open>The one by one Conway board of one alive cell, when the uninitialised \<open>alive\<close> of
  the border cells reads as true.\<close>

definition live_frame_cell_board :: "ConwayCell Life" where
  "live_frame_cell_board =
     \<lparr>height = 1, width = 1,
      board = [\<lparr>alive = True, border = True\<rparr>, \<lparr>alive = True, border = True\<rparr>,
               \<lparr>alive = True, border = True\<rparr>, \<lparr>alive = True, border = True\<rparr>,
               cA, \<lparr>alive = True, border = True\<rparr>,
               \<lparr>alive = True, border = True\<rparr>, \<lparr>alive = True, border = True\<rparr>,
               \<lparr>alive = True, border = True\<rparr>],
      generation = 0, population = 1\<rparr>"

text \<open>The one by one board that the constructor builds from a star, a newline and a
  second star: the second star sits on the frame, below the interior cell.\<close>

definition overrun_board :: "ConwayCell Life" where
  "overrun_board =
     \<lparr>height = 1, width = 1,
      board = [cB, cB, cB,
               cB, cA, cB,
               cB, cA, cB],
      generation = 0, population = 2\<rparr>"

text \<open>
  A cell class that names every cell by the character it is constructed from, for
  constructors that accept every character: the board then shows which constructor call
  filled which slot, whatever the constructor's body does. \<open>jagged_board\<close> is what
  \<open>Life(std::istream&)\<close> of \<open>Life.h\<close> builds on it from a line of two stars and a line
  of one; the character with code 1 is the border cell \<open>T(true)\<close>.
\<close>

definition char_cells :: "char cell_class" where
  "char_cells =
     \<lparr>T_true = CHR 0x01, T_char = Inr, T_is_alive = (\<lambda>c. c = CHR ''*''),
      T_plus = (\<lambda>c ns. c), T_trivial_dtor = True\<rparr>"

definition jagged_board :: "char Life_h" where
  "jagged_board =
     \<lparr>height_h = 2, width_h = 2,
      board_h = [CHR 0x01, CHR 0x01, CHR 0x01, CHR 0x01,
                 CHR 0x01, CHR ''*'', CHR ''*'', CHR 0x01,
                 CHR 0x01, CHR ''*'', CHR 0x01,
                 CHR 0x01, CHR 0x01, CHR 0x01, CHR 0x01]\<rparr>"

section \<open>Index arithmetic\<close>

lemma idx_bound:
  fixes r c h w :: int
  assumes "0 \<le> r" "r \<le> h + 1" "0 \<le> c" "c \<le> w + 1" "0 \<le> w"
  shows "0 \<le> r * (w + 2) + c \<and> r * (w + 2) + c < (h + 2) * (w + 2)"
proof -
  have "r * (w + 2) \<le> (h + 1) * (w + 2)"
    using assms by (intro mult_right_mono) auto
  moreover have "(h + 2) * (w + 2) = (h + 1) * (w + 2) + (w + 2)"
    by (simp add: algebra_simps)
  moreover have "0 \<le> r * (w + 2)" using assms by simp
  ultimately show ?thesis using assms by linarith
qed

lemma flat_div: "0 \<le> c \<Longrightarrow> c < m \<Longrightarrow> (r * m + c) div m = (r::int)"
  by (simp add: div_pos_pos_trivial)

lemma flat_mod: "0 \<le> c \<Longrightarrow> c < m \<Longrightarrow> (r * m + c) mod m = (c::int)"
  by (simp add: mod_pos_pos_trivial)

lemma interior_flat:
  "0 \<le> w \<Longrightarrow> 0 \<le> c \<Longrightarrow> c \<le> w + 1 \<Longrightarrow>
     interior h w (r * (w + 2) + c) \<longleftrightarrow> 1 \<le> r \<and> r \<le> h \<and> 1 \<le> c \<and> c \<le> w"
  by (simp add: interior_def flat_div flat_mod)

lemma flat_index_eq: "flat_index l x y = (x + 1) * (width l + 2) + (y + 1)"
  by (simp add: flat_index_def)

lemma int32_id: "INT_MIN \<le> v \<Longrightarrow> v \<le> INT_MAX \<Longrightarrow> int32 v = v"
  by (simp add: int32_def INT_MIN_def INT_MAX_def)

lemma int32_range: "INT_MIN \<le> int32 v \<and> int32 v \<le> INT_MAX"
proof -
  have "0 \<le> (v + 2147483648) mod 4294967296" by simp
  moreover have "(v + 2147483648) mod 4294967296 < 4294967296" by simp
  ultimately show ?thesis unfolding int32_def INT_MIN_def INT_MAX_def by linarith
qed

lemma int32_mod: "int32 v mod 4294967296 = v mod 4294967296"
proof -
  have "int32 v = (v + 2147483648) mod 4294967296 + (- 2147483648)" by (simp add: int32_def)
  then have "int32 v mod 4294967296
               = ((v + 2147483648) mod 4294967296 + (- 2147483648)) mod 4294967296" by simp
  also have "\<dots> = ((v + 2147483648) + (- 2147483648)) mod 4294967296"
    by (rule mod_add_left_eq)
  finally show ?thesis by simp
qed

lemma int32_cong: "a mod 4294967296 = b mod 4294967296 \<Longrightarrow> int32 a = int32 b"
proof -
  assume e: "a mod 4294967296 = b mod 4294967296"
  have "(a + 2147483648) mod 4294967296 = (a mod 4294967296 + 2147483648) mod 4294967296"
    by (simp only: mod_add_left_eq)
  also have "\<dots> = (b mod 4294967296 + 2147483648) mod 4294967296"
    by (simp only: e)
  also have "\<dots> = (b + 2147483648) mod 4294967296"
    by (simp only: mod_add_left_eq)
  finally show ?thesis by (simp only: int32_def)
qed

lemma int32_add_left: "int32 (int32 a + b) = int32 (a + b)"
proof (rule int32_cong)
  have "(int32 a + b) mod 4294967296 = (int32 a mod 4294967296 + b) mod 4294967296"
    by (simp only: mod_add_left_eq)
  also have "\<dots> = (a mod 4294967296 + b) mod 4294967296"
    by (simp only: int32_mod)
  also have "\<dots> = (a + b) mod 4294967296"
    by (simp only: mod_add_left_eq)
  finally show "(int32 a + b) mod 4294967296 = (a + b) mod 4294967296" .
qed

lemma int32_mult: "int32 (int32 a * int32 b) = int32 (a * b)"
proof (rule int32_cong)
  have "(int32 a * int32 b) mod 4294967296
          = (int32 a mod 4294967296 * (int32 b mod 4294967296)) mod 4294967296"
    by (simp only: mod_mult_eq)
  also have "\<dots> = (a mod 4294967296 * (b mod 4294967296)) mod 4294967296"
    by (simp only: int32_mod)
  also have "\<dots> = (a * b) mod 4294967296"
    by (simp only: mod_mult_eq)
  finally show "(int32 a * int32 b) mod 4294967296 = (a * b) mod 4294967296" .
qed

text \<open>The index the machine computes is the exact index wrapped once.\<close>

lemma at_index_int32: "at_index l x y = int32 (flat_index l x y)"
proof -
  have "at_index l x y = int32 (int32 (int32 (int32 (x + 1) * int32 (width l + 2)) + y) + 1)"
    by (simp only: at_index_def add32_def mul32_def)
  also have "\<dots> = int32 ((x + 1) * (width l + 2) + y + 1)"
    by (simp only: int32_mult int32_add_left)
  finally show ?thesis by (simp only: flat_index_def)
qed

lemma at_index_exact:
  "INT_MIN \<le> flat_index l x y \<Longrightarrow> flat_index l x y \<le> INT_MAX \<Longrightarrow>
     at_index l x y = flat_index l x y"
  by (simp add: at_index_int32 int32_id)

lemma add32_exact: "INT_MIN \<le> a + b \<Longrightarrow> a + b \<le> INT_MAX \<Longrightarrow> add32 a b = a + b"
  by (simp add: add32_def int32_id)

lemma add32_nonneg: "0 \<le> a \<Longrightarrow> a + 1 \<le> INT_MAX \<Longrightarrow> add32 a 1 = a + 1"
  by (rule add32_exact) (simp_all add: INT_MIN_def)

lemma factor_le_product:
  fixes h w :: int
  assumes "0 \<le> h" "0 \<le> w"
  shows "w + 2 \<le> (h + 2) * (w + 2)" "h + 2 \<le> (h + 2) * (w + 2)"
proof -
  have "1 * (w + 2) \<le> (h + 2) * (w + 2)"
    using assms by (intro mult_right_mono) simp_all
  then show "w + 2 \<le> (h + 2) * (w + 2)" by simp
  have "(h + 2) * 1 \<le> (h + 2) * (w + 2)"
    using assms by (intro mult_left_mono) simp_all
  then show "h + 2 \<le> (h + 2) * (w + 2)" by simp
qed

lemma dims_fit:
  assumes "storage_fits l" "valid l"
  shows "width l + 2 \<le> INT_MAX" "height l + 2 \<le> INT_MAX"
proof -
  have h: "0 \<le> height l" and w: "0 \<le> width l" using assms(2) by (simp_all add: valid_def)
  have p: "(height l + 2) * (width l + 2) \<le> INT_MAX"
    using assms(1) by (simp add: storage_fits_def)
  show "width l + 2 \<le> INT_MAX" using factor_le_product(1)[OF h w] p by linarith
  show "height l + 2 \<le> INT_MAX" using factor_le_product(2)[OF h w] p by linarith
qed

lemma size32_exact:
  assumes "0 \<le> h" "0 \<le> w" "(h + 2) * (w + 2) \<le> INT_MAX"
  shows "mul32 (add32 w 2) (add32 h 2) = (w + 2) * (h + 2)"
proof -
  have "w + 2 \<le> INT_MAX" using factor_le_product(1)[OF assms(1,2)] assms(3) by linarith
  then have w: "add32 w 2 = w + 2"
    using assms(2) by (intro add32_exact) (simp_all add: INT_MIN_def)
  have "h + 2 \<le> INT_MAX" using factor_le_product(2)[OF assms(1,2)] assms(3) by linarith
  then have h: "add32 h 2 = h + 2"
    using assms(1) by (intro add32_exact) (simp_all add: INT_MIN_def)
  have c: "(w + 2) * (h + 2) = (h + 2) * (w + 2)" by (rule mult.commute)
  have "0 \<le> (h + 2) * (w + 2)" using assms(1,2) by simp
  then have "int32 ((h + 2) * (w + 2)) = (h + 2) * (w + 2)"
    using assms(3) by (intro int32_id) (simp_all add: INT_MIN_def)
  then show ?thesis by (simp only: w h mul32_def c)
qed

lemma storage_index_exact:
  assumes "storage_fits l" "valid l"
      and "0 \<le> flat_index l x y" "flat_index l x y < int (length (board l))"
  shows "at_index l x y = flat_index l x y"
proof (rule at_index_exact)
  show "INT_MIN \<le> flat_index l x y" using assms(3) by (simp add: INT_MIN_def)
  show "flat_index l x y \<le> INT_MAX"
    using assms by (simp add: storage_fits_def valid_def)
qed


lemma flat_index_range:
  assumes "valid l" "0 \<le> x" "x < height l" "0 \<le> y" "y < width l"
  shows "0 \<le> flat_index l x y \<and> flat_index l x y < int (length (board l))"
  using idx_bound[of "x + 1" "height l" "y + 1" "width l"] assms
  by (simp add: flat_index_eq valid_def)

lemma flat_index_below:
  assumes "0 \<le> width l" "y < width l" "x < -1"
  shows "flat_index l x y < 0"
proof -
  have "(x + 1) * (width l + 2) \<le> (-1) * (width l + 2)"
    using assms by (intro mult_right_mono) auto
  then show ?thesis using assms by (simp add: flat_index_eq)
qed

lemma flat_index_above:
  assumes "valid l" "0 \<le> y" "height l < x"
  shows "int (length (board l)) \<le> flat_index l x y"
proof -
  have "(height l + 2) * (width l + 2) \<le> (x + 1) * (width l + 2)"
    using assms by (intro mult_right_mono) (auto simp: valid_def)
  then show ?thesis using assms unfolding flat_index_eq valid_def by linarith
qed

lemma neighbor_indices_range:
  assumes "valid l" "0 \<le> x" "x < height l" "0 \<le> y" "y < width l"
      and "i \<in> set (neighbor_indices (width l) x y)"
  shows "0 \<le> i \<and> i < int (length (board l))"
proof -
  have w: "0 \<le> width l" and len: "int (length (board l)) = (height l + 2) * (width l + 2)"
    using assms(1) by (auto simp: valid_def)
  have b: "\<And>r c. 0 \<le> r \<Longrightarrow> r \<le> height l + 1 \<Longrightarrow> 0 \<le> c \<Longrightarrow> c \<le> width l + 1 \<Longrightarrow>
      0 \<le> r * (width l + 2) + c \<and> r * (width l + 2) + c < int (length (board l))"
    using idx_bound[OF _ _ _ _ w] len by simp
  from assms(6) consider
      "i = (x + 1) * (width l + 2) + y" | "i = (x + 2) * (width l + 2) + (y + 1)"
    | "i = (x + 1) * (width l + 2) + (y + 2)" | "i = x * (width l + 2) + (y + 1)"
    | "i = (x + 2) * (width l + 2) + y" | "i = (x + 2) * (width l + 2) + (y + 2)"
    | "i = x * (width l + 2) + (y + 2)" | "i = x * (width l + 2) + y"
    by (auto simp: neighbor_indices_def)
  then show ?thesis
    using assms(2-5) by cases (simp_all add: b)
qed


lemma collect_vector_index:
  "\<forall>i \<in> set is. 0 \<le> i \<and> i < int (length v) \<Longrightarrow>
     collect (map (vector_index v) is) = Inr (map (\<lambda>i. v ! nat i) is)"
  by (induction "is") (auto simp: vector_index_def)

lemma neighbors_ok:
  assumes "valid l" "0 \<le> x" "x < height l" "0 \<le> y" "y < width l"
  shows "neighbors (board l) (width l) x y
           = Inr (map (\<lambda>i. board l ! nat i) (neighbor_indices (width l) x y))"
  unfolding neighbors_def
  by (rule collect_vector_index) (use neighbor_indices_range[OF assms] in blast)

lemma iterator_incr_pos:
  assumes "0 < width l"
  shows "(iterator_incr l ^^ n) (Life_begin l)
           = \<lparr>it_x = int n div width l, it_y = int n mod width l\<rparr>"
proof (induction n)
  case 0
  then show ?case by (simp add: Life_begin_def)
next
  case (Suc n)
  let ?w = "width l"
  let ?q = "int n div ?w"
  let ?r = "int n mod ?w"
  have m: "?r < ?w" "0 \<le> ?r" using assms by simp_all
  have eq: "int (Suc n) = ?q * ?w + (?r + 1)"
    using div_mult_mod_eq[of "int n" ?w] by linarith
  show ?case
  proof (cases "?r + 1 = ?w")
    case True
    have "(?q + 1) * ?w = ?q * ?w + ?w"
      by (simp add: algebra_simps)
    then have eq2: "int (Suc n) = (?q + 1) * ?w"
      using eq True by linarith
    have "int (Suc n) div ?w = ?q + 1" "int (Suc n) mod ?w = 0"
      using assms by (simp_all only: eq2 nonzero_mult_div_cancel_right mod_mult_self2_is_0)
    then show ?thesis using Suc True by (simp add: iterator_incr_def Let_def)
  next
    case False
    then have lt: "?r + 1 < ?w" using m by linarith
    have d: "(?q * ?w + (?r + 1)) div ?w = ?q"
      using lt m by (intro flat_div) simp_all
    have r: "(?q * ?w + (?r + 1)) mod ?w = ?r + 1"
      using lt m by (intro flat_mod) simp_all
    have "int (Suc n) div ?w = ?q" "int (Suc n) mod ?w = ?r + 1"
      by (simp_all only: eq d r)
    then show ?thesis using Suc lt by (simp add: iterator_incr_def Let_def)
  qed
qed


lemma valid_marker_board: "valid marker_board"
  by (simp add: valid_def marker_board_def)

section \<open>The scan\<close>

lemma interior_lower:
  assumes "0 \<le> w" "interior h w i"
  shows "w + 3 \<le> i"
proof -
  let ?m = "w + 2"
  define q where "q = (i div ?m) * ?m"
  have "1 * ?m \<le> (i div ?m) * ?m"
    using assms by (intro mult_right_mono) (auto simp: interior_def)
  then have "?m \<le> q" by (simp add: q_def)
  moreover have "1 \<le> i mod ?m" using assms by (simp add: interior_def)
  moreover have "i = q + i mod ?m" unfolding q_def by (rule div_mult_mod_eq[symmetric])
  ultimately show ?thesis by linarith
qed

lemma interior_upper:
  assumes "0 \<le> w" "interior h w i"
  shows "i < (h + 1) * (w + 2)"
proof -
  let ?m = "w + 2"
  define q where "q = (i div ?m) * ?m"
  have "q \<le> h * ?m"
    unfolding q_def using assms by (intro mult_right_mono) (auto simp: interior_def)
  moreover have "i mod ?m \<le> w" using assms by (simp add: interior_def)
  moreover have "i = q + i mod ?m" unfolding q_def by (rule div_mult_mod_eq[symmetric])
  moreover have "(h + 1) * ?m = h * ?m + ?m" by (simp add: algebra_simps)
  ultimately show ?thesis by linarith
qed

lemma interior_flat_index:
  assumes "0 \<le> width l" "0 \<le> x" "x < height l" "0 \<le> y" "y < width l"
  shows "interior (height l) (width l) (flat_index l x y)"
  unfolding flat_index_eq using assms by (simp add: interior_flat)

lemma length_step_pure [simp]: "length (step_pure T h w old) = length old"
  by (simp add: step_pure_def)

lemma step_pure_nth:
  "i < length old \<Longrightarrow>
     step_pure T h w old ! i
       = (if interior h w (int i) then new_cell_at T w old (int i) else old ! i)"
  by (simp add: step_pure_def)

lemma take_drop_nth:
  "length xs = length ys \<Longrightarrow> i < length xs \<Longrightarrow>
     (take k xs @ drop k ys) ! i = (if i < k then xs ! i else ys ! i)"
  by (auto simp: nth_append min_def)

lemma take_drop_update:
  assumes "length xs = length ys" "k < length xs"
  shows "(take k xs @ drop k ys)[k := xs ! k] = take (Suc k) xs @ drop (Suc k) ys"
proof (rule nth_equalityI)
  show "length ((take k xs @ drop k ys)[k := xs ! k]) = length (take (Suc k) xs @ drop (Suc k) ys)"
    using assms by simp
next
  fix i assume "i < length ((take k xs @ drop k ys)[k := xs ! k])"
  then have i: "i < length xs" using assms by simp
  have l: "length (take k xs @ drop k ys) = length xs" using assms by simp
  show "(take k xs @ drop k ys)[k := xs ! k] ! i = (take (Suc k) xs @ drop (Suc k) ys) ! i"
    using assms i l by (cases "i = k") (simp_all add: take_drop_nth nth_list_update)
qed

lemma take_drop_same:
  assumes "length xs = length ys" "k < length xs" "xs ! k = ys ! k"
  shows "take (Suc k) xs @ drop (Suc k) ys = take k xs @ drop k ys"
proof (rule nth_equalityI)
  show "length (take (Suc k) xs @ drop (Suc k) ys) = length (take k xs @ drop k ys)"
    using assms by simp
next
  fix i assume "i < length (take (Suc k) xs @ drop (Suc k) ys)"
  then have i: "i < length xs" using assms by simp
  show "(take (Suc k) xs @ drop (Suc k) ys) ! i = (take k xs @ drop k ys) ! i"
    using assms i by (cases "i = k") (simp_all add: take_drop_nth)
qed

lemma take_drop_left:
  assumes "length xs = length ys" "\<And>i. i < length xs \<Longrightarrow> k \<le> i \<Longrightarrow> xs ! i = ys ! i"
  shows "take k xs @ drop k ys = xs"
proof (rule nth_equalityI)
  show "length (take k xs @ drop k ys) = length xs" using assms(1) by simp
next
  fix i assume "i < length (take k xs @ drop k ys)"
  then have i: "i < length xs" using assms(1) by simp
  show "(take k xs @ drop k ys) ! i = xs ! i"
    using assms i by (simp add: take_drop_nth)
qed

lemma take_drop_right:
  assumes "length xs = length ys" "\<And>i. i < length xs \<Longrightarrow> i < k \<Longrightarrow> xs ! i = ys ! i"
  shows "take k xs @ drop k ys = ys"
proof (rule nth_equalityI)
  show "length (take k xs @ drop k ys) = length ys" using assms(1) by simp
next
  fix i assume "i < length (take k xs @ drop k ys)"
  then have i: "i < length xs" using assms(1) by simp
  show "(take k xs @ drop k ys) ! i = ys ! i"
    using assms i by (simp add: take_drop_nth)
qed

lemma scan_state_fields [simp]:
  "height (scan_state alv t l k) = height l"
  "width (scan_state alv t l k) = width l"
  "generation (scan_state alv t l k) = generation l"
  by (simp_all add: scan_state_def)

lemma frame_agreesD:
  assumes "frame_agrees t l" "i < length (board l)" "\<not> interior (height l) (width l) (int i)"
  shows "t ! i = board l ! i"
proof -
  from assms(1) have "\<forall>k \<in> set [0..<length (board l)].
      interior (height l) (width l) (int k) \<or> t ! k = board l ! k"
    unfolding frame_agrees_def list_all_iff by simp
  moreover have "i \<in> set [0..<length (board l)]" using assms(2) by simp
  ultimately show ?thesis using assms(3) by blast
qed

lemma frame_agrees_length: "frame_agrees t l \<Longrightarrow> length t = length (board l)"
  by (simp add: frame_agrees_def)

text \<open>Writing the target cell at an interior coordinate advances the scan by one.\<close>

lemma scan_state_write:
  assumes v: "valid l" and s: "storage_fits l" and f: "frame_agrees t l"
      and x: "0 \<le> x" "x < height l" and y: "0 \<le> y" "y < width l"
      and d: "T_trivial_dtor T"
      and l1: "l1 = (if alv (t ! nat (flat_index l x y))
                     then (scan_state alv t l (flat_index l x y))
                            \<lparr>population :=
                               add32 (population (scan_state alv t l (flat_index l x y))) 1\<rparr>
                     else scan_state alv t l (flat_index l x y))"
  shows "destroy_then_assign T l1 x y (t ! nat (flat_index l x y))
           = Inr (scan_state alv t l (flat_index l x y + 1))"
    and "at (scan_state alv t l (flat_index l x y)) x y = Inr (board l ! nat (flat_index l x y))"
proof -
  let ?k = "flat_index l x y"
  let ?P = "scan_state alv t l ?k"
  have w: "0 \<le> width l" using v by (simp add: valid_def)
  have lt: "length t = length (board l)" by (rule frame_agrees_length[OF f])
  have k: "0 \<le> ?k" "?k < int (length (board l))" using flat_index_range[OF v x y] by auto
  then have nk: "nat ?k < length (board l)" by linarith
  have kmax: "?k + 1 \<le> INT_MAX"
    using k(2) s v by (simp add: storage_fits_def valid_def)
  have int_k: "interior (height l) (width l) ?k" by (rule interior_flat_index[OF w x y])
  have bP: "board ?P = take (nat ?k) t @ drop (nat ?k) (board l)"
    by (simp add: scan_state_def)
  have lP: "length (board ?P) = length (board l)" using nk lt by (simp add: bP)
  have idx: "at_index l x y = ?k" by (rule storage_index_exact[OF s v k])
  have idxP: "at_index ?P x y = ?k" using idx by (simp add: at_index_def)
  show atP: "at ?P x y = Inr (board l ! nat ?k)"
    using k nk lt by (simp add: at_def vector_at_def idxP lP) (simp add: bP take_drop_nth)
  have suc: "nat (?k + 1) = Suc (nat ?k)" using k by linarith
  have brd: "(board ?P)[nat ?k := t ! nat ?k] = take (nat (?k + 1)) t @ drop (nat (?k + 1)) (board l)"
    unfolding bP suc using nk lt by (intro take_drop_update) simp_all
  have cnt: "int (length (filter (\<lambda>i. interior (height l) (width l) (int i) \<and> alv (t ! i))
                 [0..<nat (?k + 1)]))
           = population ?P + (if alv (t ! nat ?k) then 1 else 0)"
    unfolding suc using int_k k by (simp add: scan_state_def)
  have "length (filter (\<lambda>i. interior (height l) (width l) (int i) \<and> alv (t ! i)) [0..<nat ?k])
          \<le> length [0..<nat ?k]"
    by (rule length_filter_le)
  then have pop: "0 \<le> population ?P" "population ?P \<le> ?k"
    using k by (simp_all add: scan_state_def)
  have inc: "add32 (population ?P) 1 = population ?P + 1"
    using pop kmax by (intro add32_nonneg) simp_all
  have l1': "l1 = (if alv (t ! nat ?k) then ?P\<lparr>population := population ?P + 1\<rparr> else ?P)"
    by (simp only: l1 inc)
  have idx1: "at_index l1 x y = ?k" using idx by (simp add: at_index_def l1')
  have b1: "board l1 = board ?P" by (simp add: l1')
  have at1: "at l1 x y = Inr (board l ! nat ?k)"
    using atP by (simp add: at_def idx1 idxP b1)
  have e2: "at_assign l1 x y (t ! nat ?k)
              = Inr (l1\<lparr>board := (board ?P)[nat ?k := t ! nat ?k]\<rparr>)"
    using k by (simp add: at_assign_def idx1 b1 lP Let_def)
  have e3: "l1\<lparr>board := (board ?P)[nat ?k := t ! nat ?k]\<rparr> = scan_state alv t l (?k + 1)"
    unfolding brd by (simp add: l1' scan_state_def[of alv t l "?k + 1"] cnt)
  show "destroy_then_assign T l1 x y (t ! nat ?k) = Inr (scan_state alv t l (?k + 1))"
    using d by (simp add: destroy_then_assign_def at1) (simp only: e2 e3)
qed

lemma scan_state_skip:
  assumes "frame_agrees t l" "0 \<le> k" "k < int (length (board l))"
      and "\<not> interior (height l) (width l) k"
  shows "scan_state alv t l (k + 1) = scan_state alv t l k"
proof -
  have suc: "nat (k + 1) = Suc (nat k)" using assms(2) by linarith
  have nk: "nat k < length (board l)" using assms(2,3) by linarith
  have same: "t ! nat k = board l ! nat k"
    using frame_agreesD[OF assms(1) nk] assms(2,4) by simp
  have "take (Suc (nat k)) t @ drop (Suc (nat k)) (board l)
          = take (nat k) t @ drop (nat k) (board l)"
    using nk same frame_agrees_length[OF assms(1)] by (intro take_drop_same) simp_all
  then show ?thesis
    using assms(2,4) by (simp add: scan_state_def suc)
qed

lemma scan_state_next_row:
  assumes v: "valid l" and f: "frame_agrees t l" and x: "0 \<le> x" "x < height l"
  shows "scan_state alv t l (flat_index l (x + 1) 0) = scan_state alv t l (flat_index l x (width l))"
proof -
  let ?k = "flat_index l x (width l)"
  have w: "0 \<le> width l" using v by (simp add: valid_def)
  have len: "int (length (board l)) = (height l + 2) * (width l + 2)"
    using v by (simp add: valid_def)
  have k1: "?k = (x + 1) * (width l + 2) + (width l + 1)" by (simp add: flat_index_def)
  have k2: "?k + 1 = (x + 2) * (width l + 2) + 0" by (simp add: flat_index_def algebra_simps)
  have k3: "flat_index l (x + 1) 0 = ?k + 1 + 1" by (simp add: flat_index_def algebra_simps)
  have r1: "0 \<le> ?k \<and> ?k < int (length (board l))"
    unfolding k1 len using idx_bound[of "x + 1" "height l" "width l + 1" "width l"] x w by simp
  have r2: "0 \<le> ?k + 1 \<and> ?k + 1 < int (length (board l))"
    unfolding k2 len using idx_bound[of "x + 2" "height l" 0 "width l"] x w by simp
  have n1: "\<not> interior (height l) (width l) ?k"
    unfolding k1 using w by (simp add: interior_flat)
  have n2: "\<not> interior (height l) (width l) (?k + 1)"
    unfolding k2 using interior_flat[OF w, of 0 "height l" "x + 2"] w by simp
  show ?thesis
    unfolding k3 using scan_state_skip[OF f _ _ n2] scan_state_skip[OF f _ _ n1] r1 r2 by simp
qed

lemma scan_state_start:
  assumes v: "valid l" and f: "frame_agrees t l"
  shows "scan_state alv t l (flat_index l 0 0) = l\<lparr>population := 0\<rparr>"
proof -
  let ?K = "flat_index l 0 0"
  have w: "0 \<le> width l" using v by (simp add: valid_def)
  have K: "?K = width l + 3" by (simp add: flat_index_def)
  have non: "\<And>i. i < nat ?K \<Longrightarrow> \<not> interior (height l) (width l) (int i)"
    using interior_lower[OF w] K by fastforce
  have b: "take (nat ?K) t @ drop (nat ?K) (board l) = board l"
    using frame_agrees_length[OF f] frame_agreesD[OF f] non
    by (intro take_drop_right) simp_all
  have c: "filter (\<lambda>i. interior (height l) (width l) (int i) \<and> alv (t ! i)) [0..<nat ?K] = []"
    using non by (simp add: filter_empty_conv)
  show ?thesis by (simp add: scan_state_def b c)
qed

lemma scan_state_end:
  assumes v: "valid l" and f: "frame_agrees t l"
  shows "scan_state alv t l (flat_index l (height l) 0)
           = l\<lparr>board := t, population := alive_count alv (height l) (width l) t\<rparr>"
proof -
  let ?K = "flat_index l (height l) 0"
  let ?n = "length (board l)"
  let ?P = "\<lambda>i. interior (height l) (width l) (int i) \<and> alv (t ! i)"
  have w: "0 \<le> width l" and h: "0 \<le> height l"
    and len: "int ?n = (height l + 2) * (width l + 2)" using v by (simp_all add: valid_def)
  have lt: "length t = ?n" by (rule frame_agrees_length[OF f])
  have K: "?K = (height l + 1) * (width l + 2) + 1" by (simp add: flat_index_def)
  have "(height l + 2) * (width l + 2) = (height l + 1) * (width l + 2) + (width l + 2)"
    by (simp add: algebra_simps)
  then have Kn: "nat ?K \<le> ?n" using K len w by linarith
  have non: "\<And>i. nat ?K \<le> i \<Longrightarrow> \<not> interior (height l) (width l) (int i)"
  proof
    fix i assume "nat ?K \<le> i" "interior (height l) (width l) (int i)"
    then show False using interior_upper[OF w, of "height l" "int i"] K by linarith
  qed
  have b: "take (nat ?K) t @ drop (nat ?K) (board l) = t"
    using lt frame_agreesD[OF f] non by (intro take_drop_left) simp_all
  have "[0..<?n] = [0..<nat ?K] @ [nat ?K..<?n]"
    using Kn by (metis le_add_diff_inverse upt_add_eq_append zero_le)
  then have "filter ?P [0..<?n] = filter ?P [0..<nat ?K] @ filter ?P [nat ?K..<?n]"
    by (metis filter_append)
  moreover have "filter ?P [nat ?K..<?n] = []"
    using non by (simp add: filter_empty_conv)
  ultimately have c: "filter ?P [0..<nat ?K] = filter ?P [0..<?n]" by simp
  show ?thesis by (simp add: scan_state_def b c alive_count_def lt)
qed

lemma new_cell_flat_index:
  assumes "0 \<le> width l" "0 \<le> y" "y < width l"
  shows "new_cell_at T (width l) old (flat_index l x y)
           = T_plus T (old ! nat (flat_index l x y))
               (map (\<lambda>j. old ! nat j) (neighbor_indices (width l) x y))"
proof -
  have "flat_index l x y div (width l + 2) = x + 1" "flat_index l x y mod (width l + 2) = y + 1"
    unfolding flat_index_eq using assms by (simp_all add: flat_div flat_mod)
  then show ?thesis by (simp add: new_cell_at_def)
qed

lemma frame_agrees_step_pure:
  "frame_agrees (step_pure T (height l) (width l) (board l)) l"
  by (simp add: frame_agrees_def list_all_iff step_pure_nth)

lemma step_pure_flat_index:
  assumes v: "valid l" and x: "0 \<le> x" "x < height l" and y: "0 \<le> y" "y < width l"
  shows "step_pure T (height l) (width l) (board l) ! nat (flat_index l x y)
           = T_plus T (board l ! nat (flat_index l x y))
               (map (\<lambda>j. board l ! nat j) (neighbor_indices (width l) x y))"
proof -
  have w: "0 \<le> width l" using v by (simp add: valid_def)
  have k: "0 \<le> flat_index l x y" "flat_index l x y < int (length (board l))"
    using flat_index_range[OF v x y] by auto
  then have nk: "nat (flat_index l x y) < length (board l)" by linarith
  show ?thesis
    using nk k interior_flat_index[OF w x y]
    by (simp add: step_pure_nth new_cell_flat_index[OF w y])
qed

lemma evolve_cell_scan:
  assumes v: "valid l" and s: "storage_fits l" and d: "T_trivial_dtor T"
      and x: "0 \<le> x" "x < height l" and y: "0 \<le> y" "y < width l"
  shows "evolve_cell T (board l) x y
           (scan_state (T_is_alive T) (step_pure T (height l) (width l) (board l)) l
              (flat_index l x y))
         = Inr (scan_state (T_is_alive T) (step_pure T (height l) (width l) (board l)) l
              (flat_index l x y + 1))"
proof -
  let ?k = "flat_index l x y"
  let ?sp = "step_pure T (height l) (width l) (board l)"
  let ?P = "scan_state (T_is_alive T) ?sp l ?k"
  define l1 where "l1 = (if T_is_alive T (?sp ! nat ?k)
      then ?P\<lparr>population := add32 (population ?P) 1\<rparr> else ?P)"
  note wr = scan_state_write[OF v s frame_agrees_step_pure x y d l1_def]
  note new = step_pure_flat_index[OF v x y, symmetric]
  have "evolve_cell T (board l) x y ?P = destroy_then_assign T l1 x y (?sp ! nat ?k)"
    by (simp add: evolve_cell_def wr(2) neighbors_ok[OF v x y] new Let_def l1_def)
  then show ?thesis by (simp only: wr(1))
qed

lemma evolve_row_scan:
  assumes v: "valid l" and s: "storage_fits l" and d: "T_trivial_dtor T"
      and x: "0 \<le> x" "x < height l" and y: "0 \<le> y" "y \<le> width l"
  shows "evolve_row T (board l) x y
           (scan_state (T_is_alive T) (step_pure T (height l) (width l) (board l)) l
              (flat_index l x y))
         = Inr (scan_state (T_is_alive T) (step_pure T (height l) (width l) (board l)) l
              (flat_index l x (width l)))"
  using y
proof (induction "nat (width l - y)" arbitrary: y)
  case 0
  then have "y = width l" by simp
  then show ?case by (subst evolve_row.simps) simp
next
  case (Suc n)
  then have lt: "y < width l" and n: "n = nat (width l - (y + 1))" by linarith+
  have e: "flat_index l x y + 1 = flat_index l x (y + 1)" by (simp add: flat_index_def)
  note step = evolve_cell_scan[OF v s d x Suc.prems(1) lt, unfolded e]
  have "evolve_row T (board l) x (y + 1)
          (scan_state (T_is_alive T) (step_pure T (height l) (width l) (board l)) l
             (flat_index l x (y + 1)))
        = Inr (scan_state (T_is_alive T) (step_pure T (height l) (width l) (board l)) l
             (flat_index l x (width l)))"
    using Suc.hyps(1)[OF n] Suc.prems lt by simp
  then show ?case
    using lt step by (subst evolve_row.simps) simp
qed

lemma evolve_rows_scan:
  assumes v: "valid l" and s: "storage_fits l" and d: "T_trivial_dtor T"
      and x: "0 \<le> x" "x \<le> height l"
  shows "evolve_rows T (board l) x
           (scan_state (T_is_alive T) (step_pure T (height l) (width l) (board l)) l
              (flat_index l x 0))
         = Inr (scan_state (T_is_alive T) (step_pure T (height l) (width l) (board l)) l
              (flat_index l (height l) 0))"
  using x
proof (induction "nat (height l - x)" arbitrary: x)
  case 0
  then have "x = height l" by simp
  then show ?case by (subst evolve_rows.simps) simp
next
  case (Suc n)
  then have lt: "x < height l" and n: "n = nat (height l - (x + 1))" by linarith+
  have w: "0 \<le> width l" using v by (simp add: valid_def)
  note nr = scan_state_next_row[OF v frame_agrees_step_pure Suc.prems(1) lt, symmetric]
  note row = evolve_row_scan[OF v s d Suc.prems(1) lt _ w, simplified, unfolded nr]
  have "evolve_rows T (board l) (x + 1)
          (scan_state (T_is_alive T) (step_pure T (height l) (width l) (board l)) l
             (flat_index l (x + 1) 0))
        = Inr (scan_state (T_is_alive T) (step_pure T (height l) (width l) (board l)) l
             (flat_index l (height l) 0))"
    using Suc.hyps(1)[OF n] Suc.prems lt by simp
  then show ?case
    using lt row by (subst evolve_rows.simps) simp
qed

text \<open>
  For a cell type with a trivial destructor, on every valid board whose storage size is
  an \<open>int\<close>: \<open>evolve_all\<close>, which overwrites the cells in place in row-major order
  while reading the neighbours from \<open>temp_board\<close>, returns the board that \<open>step_pure\<close>
  computes from the old board alone, with the population counted anew and the
  generation incremented in \<open>int\<close>.
\<close>

lemma evolve_all_eq:
  assumes v: "valid l" and s: "storage_fits l" and d: "T_trivial_dtor T"
  shows "evolve_all T l
           = Inr (l\<lparr>board := step_pure T (height l) (width l) (board l),
                     population := alive_count (T_is_alive T) (height l) (width l)
                                     (step_pure T (height l) (width l) (board l)),
                     generation := add32 (generation l) 1\<rparr>)"
proof -
  have h: "0 \<le> height l" using v by (simp add: valid_def)
  have "evolve_rows T (board l) 0 (l\<lparr>population := 0\<rparr>)
          = Inr (scan_state (T_is_alive T) (step_pure T (height l) (width l) (board l)) l
                   (flat_index l (height l) 0))"
    using evolve_rows_scan[OF v s d _ h]
    by (simp add: scan_state_start[OF v frame_agrees_step_pure])
  then show ?thesis
    by (simp add: evolve_all_def Let_def scan_state_end[OF v frame_agrees_step_pure])
qed

text \<open>
  For a cell type whose destructor is not trivial, the inner loop body never completes:
  it fails at \<open>at\<close> or at the neighbour reads, or it reaches the assignment to the
  destroyed cell. So \<open>evolve_all\<close> returns only when the loops visit no cell, and then
  it leaves the board as it was.
\<close>

lemma evolve_cell_nontrivial:
  "\<not> T_trivial_dtor T \<Longrightarrow> isl (evolve_cell T tb x y l)"
  by (simp add: evolve_cell_def destroy_then_assign_def Let_def at_def vector_at_def
           split: sum.splits)

lemma evolve_row_nontrivial:
  assumes "\<not> T_trivial_dtor T" "evolve_row T tb x y l = Inr l'"
  shows "l' = l"
proof (cases "y < width l")
  case True
  from evolve_cell_nontrivial[OF assms(1), of tb x y l]
  obtain e where "evolve_cell T tb x y l = Inl e"
    by (cases "evolve_cell T tb x y l") auto
  with True assms(2) show ?thesis by (simp add: evolve_row.simps[of T tb x y l])
next
  case False
  with assms(2) show ?thesis by (simp add: evolve_row.simps[of T tb x y l])
qed

lemma evolve_rows_nontrivial:
  "\<not> T_trivial_dtor T \<Longrightarrow> evolve_rows T tb x l = Inr l' \<Longrightarrow> l' = l"
proof (induction T tb x l rule: evolve_rows.induct)
  case (1 T tb x l)
  show ?case
  proof (cases "x < height l")
    case True
    with "1.prems"(2) obtain l1 where
      r: "evolve_row T tb x 0 l = Inr l1" and rs: "evolve_rows T tb (x + 1) l1 = Inr l'"
      by (auto simp: evolve_rows.simps[of T tb x l] split: sum.splits)
    have "l1 = l" by (rule evolve_row_nontrivial[OF "1.prems"(1) r])
    with "1.IH"[OF True r "1.prems"(1) rs] show ?thesis by simp
  next
    case False
    with "1.prems"(2) show ?thesis by (simp add: evolve_rows.simps[of T tb x l])
  qed
qed

lemma evolve_all_nontrivial:
  assumes "\<not> T_trivial_dtor T" "evolve_all T l = Inr l'"
  shows "l' = l\<lparr>population := 0, generation := add32 (generation l) 1\<rparr>"
proof -
  from assms(2) obtain l1 where
    r: "evolve_rows T (board l) 0 (l\<lparr>population := 0\<rparr>) = Inr l1"
    and l': "l' = l1\<lparr>generation := add32 (generation l1) 1\<rparr>"
    by (auto simp: evolve_all_def Let_def split: sum.splits)
  have "l1 = l\<lparr>population := 0\<rparr>"
    by (rule evolve_rows_nontrivial[OF assms(1) r])
  with l' show ?thesis by simp
qed

text \<open>On a board with an interior cell it does not return at all.\<close>

lemma evolve_all_undefined:
  assumes "\<not> T_trivial_dtor T" "0 < height l" "0 < width l"
  shows "isl (evolve_all T l)"
proof -
  let ?l0 = "l\<lparr>population := 0\<rparr>"
  from evolve_cell_nontrivial[OF assms(1), of "board l" 0 0 ?l0]
  obtain e where "evolve_cell T (board l) 0 0 ?l0 = Inl e"
    by (cases "evolve_cell T (board l) 0 0 ?l0") auto
  then have "evolve_row T (board l) 0 0 ?l0 = Inl e"
    using assms(3) by (simp add: evolve_row.simps[of T "board l" 0 0 ?l0])
  then have "evolve_rows T (board l) 0 ?l0 = Inl e"
    using assms(2) by (simp add: evolve_rows.simps[of T "board l" 0 ?l0])
  then show ?thesis by (simp add: evolve_all_def Let_def)
qed

lemma Life_read_row:
  assumes v: "valid l" and s: "storage_fits l" and d: "T_trivial_dtor T"
      and f: "frame_agrees t l" and x: "0 \<le> x" "x < height l"
      and w: "0 < width l"
      and y: "0 \<le> y" "y + int (length cs) = width l"
      and cs: "\<And>j. j < length cs \<Longrightarrow> cs ! j \<noteq> newline
                 \<and> T_char T (cs ! j) = Inr (t ! nat (flat_index l x (y + int j)))"
  shows "Life_read T (cs @ newline # rest) x y (scan_state (T_is_alive T) t l (flat_index l x y))
           = Life_read T rest (x + 1) 0 (scan_state (T_is_alive T) t l (flat_index l (x + 1) 0))"
  using y cs
proof (induction cs arbitrary: y)
  case Nil
  then have yw: "y = width l" by simp
  have "add32 x 1 = x + 1"
    using x dims_fit(2)[OF s v] by (intro add32_nonneg) simp_all
  then show ?case
    using w by (simp add: yw scan_state_next_row[OF v f x])
next
  case (Cons c cs)
  let ?k = "flat_index l x y"
  let ?P = "scan_state (T_is_alive T) t l ?k"
  have lt: "y < width l" using Cons.prems(2) by simp
  have c: "c \<noteq> newline" "T_char T c = Inr (t ! nat ?k)"
    using Cons.prems(3)[of 0] by simp_all
  define l1 where "l1 = (if T_is_alive T (t ! nat ?k)
      then ?P\<lparr>population := add32 (population ?P) 1\<rparr> else ?P)"
  note wr = scan_state_write[OF v s f x Cons.prems(1) lt d l1_def]
  have e: "?k + 1 = flat_index l x (y + 1)" by (simp add: flat_index_def)
  have y1: "add32 y 1 = y + 1"
    using Cons.prems(1) lt dims_fit(1)[OF s v] by (intro add32_nonneg) simp_all
  have step: "Life_read T ((c # cs) @ newline # rest) x y ?P
                = Life_read T (cs @ newline # rest) x (y + 1)
                    (scan_state (T_is_alive T) t l (flat_index l x (y + 1)))"
    using c wr(1) by (simp add: Let_def l1_def[symmetric] e y1)
  have "Life_read T (cs @ newline # rest) x (y + 1)
          (scan_state (T_is_alive T) t l (flat_index l x (y + 1)))
        = Life_read T rest (x + 1) 0 (scan_state (T_is_alive T) t l (flat_index l (x + 1) 0))"
  proof (rule Cons.IH)
    show "0 \<le> y + 1" using Cons.prems(1) by simp
    show "y + 1 + int (length cs) = width l" using Cons.prems(2) by simp
    fix j assume "j < length cs"
    then show "cs ! j \<noteq> newline
        \<and> T_char T (cs ! j) = Inr (t ! nat (flat_index l x (y + 1 + int j)))"
      using Cons.prems(3)[of "Suc j"] by (simp add: ac_simps)
  qed
  with step show ?case by simp
qed

lemma Life_read_rows:
  assumes v: "valid l" and s: "storage_fits l" and d: "T_trivial_dtor T"
      and f: "frame_agrees t l"
      and rest: "rest = [] \<or> hd rest = newline"
      and x: "0 \<le> x" "x + int (length rs) = height l"
      and w: "rs \<noteq> [] \<Longrightarrow> 0 < width l"
      and rs: "\<And>i j. i < length rs \<Longrightarrow> int (length (rs ! i)) = width l \<and>
                 (j < length (rs ! i) \<longrightarrow> rs ! i ! j \<noteq> newline
                    \<and> T_char T (rs ! i ! j) = Inr (t ! nat (flat_index l (x + int i) (int j))))"
  shows "Life_read T (board_text rs @ rest) x 0 (scan_state (T_is_alive T) t l (flat_index l x 0))
           = Inr (height l, scan_state (T_is_alive T) t l (flat_index l (height l) 0))"
  using x w rs
proof (induction rs arbitrary: x)
  case Nil
  then have xh: "x = height l" by simp
  show ?case
    using rest by (cases rest) (simp_all add: board_text_def xh)
next
  case (Cons r rs)
  have lt: "x < height l" using Cons.prems(2) by simp
  have w0: "0 < width l" using Cons.prems(3) by simp
  have len: "int (length r) = width l" using Cons.prems(4)[of 0 0] by simp
  have row: "Life_read T (r @ newline # (board_text rs @ rest)) x 0
               (scan_state (T_is_alive T) t l (flat_index l x 0))
             = Life_read T (board_text rs @ rest) (x + 1) 0
                 (scan_state (T_is_alive T) t l (flat_index l (x + 1) 0))"
  proof (rule Life_read_row[OF v s d f Cons.prems(1) lt w0])
    show "(0::int) \<le> 0" by simp
    show "0 + int (length r) = width l" using len by simp
    fix j assume "j < length r"
    then show "r ! j \<noteq> newline \<and> T_char T (r ! j) = Inr (t ! nat (flat_index l x (0 + int j)))"
      using Cons.prems(4)[of 0 j] by simp
  qed
  have "Life_read T (board_text rs @ rest) (x + 1) 0
          (scan_state (T_is_alive T) t l (flat_index l (x + 1) 0))
        = Inr (height l, scan_state (T_is_alive T) t l (flat_index l (height l) 0))"
  proof (rule Cons.IH)
    show "0 \<le> x + 1" using Cons.prems(1) by simp
    show "x + 1 + int (length rs) = height l" using Cons.prems(2) by simp
    show "0 < width l" by (rule w0)
    fix i j assume "i < length rs"
    then show "int (length (rs ! i)) = width l \<and>
                 (j < length (rs ! i) \<longrightarrow> rs ! i ! j \<noteq> newline
                    \<and> T_char T (rs ! i ! j) = Inr (t ! nat (flat_index l (x + 1 + int i) (int j))))"
      using Cons.prems(4)[of "Suc i" j] by (simp add: ac_simps)
  qed
  with row show ?case by (simp add: board_text_def)
qed

lemma Life_resized_exact:
  assumes "0 \<le> h" "0 \<le> w" "(h + 2) * (w + 2) \<le> INT_MAX"
  shows "Life_resized (T_true T) h w = Inr (Life_init T h w)"
proof -
  have "\<not> (w + 2) * (h + 2) < 0" using assms(1,2) by (simp add: not_less)
  then show ?thesis
    by (simp add: Life_resized_def Let_def size32_exact[OF assms] Life_init_def)
qed

lemma valid_Life_init:
  assumes "0 \<le> h" "0 \<le> w"
  shows "valid (Life_init T h w)"
proof -
  have "0 \<le> (w + 2) * (h + 2)" using assms by simp
  then show ?thesis using assms by (simp add: valid_def Life_init_def mult.commute)
qed

lemma frame_agrees_parsed_board:
  assumes "0 \<le> h" "0 \<le> w"
  shows "frame_agrees (parsed_board T h w rows) (Life_init T h w)"
  by (simp add: frame_agrees_def list_all_iff parsed_board_def Life_init_def)

lemma parsed_board_flat_index:
  assumes h: "0 \<le> h" and w: "0 \<le> w" and i: "int i < h" and j: "int j < w"
  shows "parsed_board T h w rows ! nat (flat_index (Life_init T h w) (int i) (int j))
           = projr (T_char T (rows ! i ! j))"
proof -
  let ?l = "Life_init T h w"
  let ?k = "flat_index ?l (int i) (int j)"
  have v: "valid ?l" by (rule valid_Life_init[OF h w])
  have hw: "height ?l = h" "width ?l = w" by (simp_all add: Life_init_def)
  have k: "0 \<le> ?k" "?k < int (length (board ?l))"
    using flat_index_range[OF v, of "int i" "int j"] i j hw by auto
  have len: "length (board ?l) = nat ((w + 2) * (h + 2))" by (simp add: Life_init_def)
  have nk: "nat ?k < nat ((w + 2) * (h + 2))" using k len by linarith
  have int_k: "interior h w ?k"
    using interior_flat_index[of ?l "int i" "int j"] i j w hw by simp
  have dm: "?k div (w + 2) = int i + 1" "?k mod (w + 2) = int j + 1"
    unfolding flat_index_eq hw using w j by (simp_all add: flat_div flat_mod)
  show ?thesis
    using nk k int_k by (simp add: parsed_board_def dm)
qed

text \<open>
  For a cell type with a trivial destructor: from the text of an \<open>h\<close> by \<open>w\<close> board
  whose storage size is an \<open>int\<close>, followed by the end of the input or a blank line,
  the constructor builds the board the text describes, with generation 0 and the
  population counted.
\<close>

lemma Life_ctor_text:
  assumes ok: "text_ok T h w rows" and rest: "rest = [] \<or> hd rest = newline"
      and fits: "(h + 2) * (w + 2) \<le> INT_MAX" and d: "T_trivial_dtor T"
  shows "Life_ctor T (board_text rows @ rest) h w
           = Inr \<lparr>height = h, width = w, board = parsed_board T h w rows, generation = 0,
                  population = alive_count (T_is_alive T) h w (parsed_board T h w rows)\<rparr>"
proof -
  let ?l = "Life_init T h w"
  let ?t = "parsed_board T h w rows"
  have h: "0 \<le> h" and w: "0 \<le> w" and hl: "int (length rows) = h"
    using ok by (auto simp: text_ok_def)
  have n: "Life_resized (T_true T) h w = Inr ?l"
    by (rule Life_resized_exact[OF h w fits])
  have v: "valid ?l" by (rule valid_Life_init[OF h w])
  have s: "storage_fits ?l" using fits by (simp add: storage_fits_def Life_init_def)
  have f: "frame_agrees ?t ?l" by (rule frame_agrees_parsed_board[OF h w])
  have hw: "height ?l = h" "width ?l = w" by (simp_all add: Life_init_def)
  have rd: "Life_read T (board_text rows @ rest) 0 0
              (scan_state (T_is_alive T) ?t ?l (flat_index ?l 0 0))
            = Inr (height ?l, scan_state (T_is_alive T) ?t ?l (flat_index ?l (height ?l) 0))"
  proof (rule Life_read_rows[OF v s d f rest])
    show "(0::int) \<le> 0" by simp
    show "0 + int (length rows) = height ?l" using hl hw by simp
    show "0 < width ?l" if "rows \<noteq> []"
      using that ok hw by (auto simp: text_ok_def)
    fix i j assume i: "i < length rows"
    then have r: "rows ! i \<in> set rows" by simp
    with ok have lr: "int (length (rows ! i)) = w"
      and ch: "\<forall>c \<in> set (rows ! i). c \<noteq> newline \<and> \<not> isl (T_char T c)"
      by (auto simp: text_ok_def list_all_iff)
    show "int (length (rows ! i)) = width ?l \<and>
           (j < length (rows ! i) \<longrightarrow> rows ! i ! j \<noteq> newline
              \<and> T_char T (rows ! i ! j) = Inr (?t ! nat (flat_index ?l (0 + int i) (int j))))"
    proof (intro conjI impI)
      show "int (length (rows ! i)) = width ?l" using lr hw by simp
      assume j: "j < length (rows ! i)"
      then have c: "rows ! i ! j \<noteq> newline" "\<not> isl (T_char T (rows ! i ! j))"
        using ch by simp_all
      then show "rows ! i ! j \<noteq> newline" by simp
      have "int i < h" "int j < w" using i j hl lr by linarith+
      then have "?t ! nat (flat_index ?l (0 + int i) (int j)) = projr (T_char T (rows ! i ! j))"
        using parsed_board_flat_index[OF h w, of i j T rows] by simp
      then show "T_char T (rows ! i ! j) = Inr (?t ! nat (flat_index ?l (0 + int i) (int j)))"
        using c(2) by (cases "T_char T (rows ! i ! j)") simp_all
    qed
  qed
  have st: "scan_state (T_is_alive T) ?t ?l (flat_index ?l 0 0) = ?l"
    using scan_state_start[OF v f, of "T_is_alive T"] by (simp add: Life_init_def)
  have en: "scan_state (T_is_alive T) ?t ?l (flat_index ?l h 0)
              = \<lparr>height = h, width = w, board = ?t, generation = 0,
                 population = alive_count (T_is_alive T) h w ?t\<rparr>"
    using scan_state_end[OF v f, of "T_is_alive T"] by (simp add: Life_init_def)
  have "Life_read T (board_text rows @ rest) 0 0 ?l
          = Inr (h, \<lparr>height = h, width = w, board = ?t, generation = 0,
                 population = alive_count (T_is_alive T) h w ?t\<rparr>)"
    using rd by (simp only: st hw en)
  then show ?thesis
    by (simp add: Life_ctor_def n)
qed

lemma evolve_all_props:
  assumes v: "valid l" and s: "storage_fits l" and d: "T_trivial_dtor T"
  obtains l' where "evolve_all T l = Inr l'" "valid l'" "storage_fits l'"
    "height l' = height l" "width l' = width l" "length (board l') = length (board l)"
    "generation l' = add32 (generation l) 1"
    "population l' = alive_count (T_is_alive T) (height l') (width l') (board l')"
    "board l' = step_pure T (height l) (width l) (board l)"
proof -
  let ?l' = "l\<lparr>board := step_pure T (height l) (width l) (board l),
                 population := alive_count (T_is_alive T) (height l) (width l)
                                 (step_pure T (height l) (width l) (board l)),
                 generation := add32 (generation l) 1\<rparr>"
  have "evolve_all T l = Inr ?l'" by (rule evolve_all_eq[OF v s d])
  moreover have "valid ?l'" using v by (simp add: valid_def)
  moreover have "storage_fits ?l'" using s by (simp add: storage_fits_def)
  ultimately show ?thesis by (intro that[of ?l']) simp_all
qed

lemma evolve_n_props:
  assumes v: "valid l" and s: "storage_fits l" and d: "T_trivial_dtor T"
  shows "\<exists>l'. evolve_n T n l = Inr l' \<and> valid l' \<and> storage_fits l'
           \<and> height l' = height l \<and> width l' = width l
           \<and> length (board l') = length (board l)
           \<and> generation l' = ((\<lambda>g. add32 g 1) ^^ n) (generation l)
           \<and> (0 < n \<longrightarrow> population l'
                 = alive_count (T_is_alive T) (height l') (width l') (board l'))
           \<and> (\<forall>i < length (board l). \<not> interior (height l) (width l) (int i)
                 \<longrightarrow> board l' ! i = board l ! i)"
  using v s
proof (induction n arbitrary: l)
  case 0
  then show ?case by simp
next
  case (Suc n)
  obtain l1 where l1: "evolve_all T l = Inr l1" "valid l1" "storage_fits l1"
    "height l1 = height l" "width l1 = width l" "length (board l1) = length (board l)"
    "generation l1 = add32 (generation l) 1"
    "population l1 = alive_count (T_is_alive T) (height l1) (width l1) (board l1)"
    "board l1 = step_pure T (height l) (width l) (board l)"
    by (rule evolve_all_props[OF Suc.prems d])
  from Suc.IH[OF l1(2,3)] obtain l' where l': "evolve_n T n l1 = Inr l'" "valid l'"
    "storage_fits l'"
    "height l' = height l1" "width l' = width l1" "length (board l') = length (board l1)"
    "generation l' = ((\<lambda>g. add32 g 1) ^^ n) (generation l1)"
    "0 < n \<longrightarrow> population l' = alive_count (T_is_alive T) (height l') (width l') (board l')"
    "\<forall>i < length (board l1). \<not> interior (height l1) (width l1) (int i)
        \<longrightarrow> board l' ! i = board l1 ! i"
    by blast
  have pop: "population l' = alive_count (T_is_alive T) (height l') (width l') (board l')"
  proof (cases n)
    case 0
    then have "l' = l1" using l'(1) by simp
    then show ?thesis using l1(8) by simp
  next
    case (Suc m)
    then show ?thesis using l'(8) by simp
  qed
  have gen: "generation l' = ((\<lambda>g. add32 g 1) ^^ Suc n) (generation l)"
    using l'(7) l1(7) funpow_swap1[of "\<lambda>g. add32 g 1" n "generation l"] by simp
  have fr: "\<forall>i < length (board l). \<not> interior (height l) (width l) (int i)
              \<longrightarrow> board l' ! i = board l ! i"
    using l'(9) l1(4,5,6,9) by (simp add: step_pure_nth)
  show ?case
    using l1(1,4,5,6) l'(1,2,3,4,5,6) pop fr gen by simp
qed

lemma evolve_n_nontrivial:
  assumes "\<not> T_trivial_dtor T"
  shows "evolve_n T n l = Inr l' \<Longrightarrow>
           board l' = board l \<and> height l' = height l \<and> width l' = width l"
proof (induction n arbitrary: l)
  case 0
  then show ?case by simp
next
  case (Suc n)
  then obtain l1 where l1: "evolve_all T l = Inr l1" and r: "evolve_n T n l1 = Inr l'"
    by (auto split: sum.splits)
  from evolve_all_nontrivial[OF assms l1] Suc.IH[OF r] show ?case by simp
qed

lemma destroy_then_assign_nontrivial:
  "\<not> T_trivial_dtor T \<Longrightarrow> isl (destroy_then_assign T l x y c)"
  by (simp add: destroy_then_assign_def split: sum.splits)

text \<open>With a non-trivial destructor the read loop of the constructor returns only
  when it stores no cell.\<close>

lemma Life_read_nontrivial:
  "\<not> T_trivial_dtor T \<Longrightarrow> Life_read T inp x y l = Inr (x', l') \<Longrightarrow> l' = l"
proof (induction T inp x y l rule: Life_read.induct)
  case (1 T x y l)
  then show ?case by simp
next
  case (2 T input rest x y l)
  show ?case
  proof (cases "input = newline")
    case True
    show ?thesis
    proof (cases "y = 0")
      case y0: True
      with True "2.prems"(2) show ?thesis by simp
    next
      case y1: False
      with True "2.prems"(2) have w: "y = width l"
        and r: "Life_read T rest (add32 x 1) 0 l = Inr (x', l')"
        by (auto split: if_splits)
      from "2.IH"(1)[OF _ True w "2.prems"(1) r] y1 True show ?thesis by simp
    qed
  next
    case False
    have "False"
    proof (cases "T_char T input")
      case (Inl e)
      with False "2.prems"(2) show ?thesis by simp
    next
      case (Inr new_cell)
      define l1 where "l1 = (if T_is_alive T new_cell
          then l\<lparr>population := add32 (population l) 1\<rparr> else l)"
      from destroy_then_assign_nontrivial[OF "2.prems"(1), of l1 x y new_cell]
      obtain e where "destroy_then_assign T l1 x y new_cell = Inl e"
        by (cases "destroy_then_assign T l1 x y new_cell") auto
      with False Inr "2.prems"(2) show ?thesis by (simp add: Let_def l1_def)
    qed
    then show ?thesis ..
  qed
qed

text \<open>Reading one line: either a failure, or the loop continues behind the newline on
  the next row with the width unchanged.\<close>

lemma Life_read_line:
  assumes "0 \<le> y" "0 < y + int (length cs)" "newline \<notin> set cs"
      and "y + int (length cs) \<le> INT_MAX"
  shows "isl (Life_read T (cs @ newline # rest) x y l)
       \<or> (y + int (length cs) = width l
          \<and> (\<exists>l'. width l' = width l
                \<and> Life_read T (cs @ newline # rest) x y l
                    = Life_read T rest (add32 x 1) 0 l'))"
  using assms
proof (induction cs arbitrary: y l)
  case Nil
  then show ?case by auto
next
  case (Cons c cs)
  have c: "c \<noteq> newline" using Cons.prems(3) by auto
  have y1: "add32 y 1 = y + 1"
    using Cons.prems(1,4) by (intro add32_nonneg) simp_all
  show ?case
  proof (cases "T_char T c")
    case (Inl e)
    then show ?thesis using c by simp
  next
    case (Inr new_cell)
    define l1 where "l1 = (if T_is_alive T new_cell
        then l\<lparr>population := add32 (population l) 1\<rparr> else l)"
    show ?thesis
    proof (cases "destroy_then_assign T l1 x y new_cell")
      case (Inl e)
      then show ?thesis using c Inr by (simp add: Let_def l1_def)
    next
      case r: (Inr l2)
      have w2: "width l2 = width l" using destroy_then_assign_dims[OF r] by (simp add: l1_def)
      have step: "Life_read T ((c # cs) @ newline # rest) x y l
                    = Life_read T (cs @ newline # rest) x (y + 1) l2"
        using c Inr r by (simp add: Let_def l1_def y1)
      have "isl (Life_read T (cs @ newline # rest) x (y + 1) l2)
          \<or> (y + 1 + int (length cs) = width l2
             \<and> (\<exists>l'. width l' = width l2
                  \<and> Life_read T (cs @ newline # rest) x (y + 1) l2
                      = Life_read T rest (add32 x 1) 0 l'))"
        using Cons.prems by (intro Cons.IH) auto
      then show ?thesis unfolding step w2 by (simp add: ac_simps)
    qed
  qed
qed

lemma Life_read_bad_line:
  assumes rows: "list_all (\<lambda>r. r \<noteq> [] \<and> newline \<notin> set r \<and> int (length r) \<le> INT_MAX) rows"
      and bad: "\<not> list_all (\<lambda>r. int (length r) = width l) rows"
  shows "isl (Life_read T (board_text rows @ rest) x 0 l)"
  using assms
proof (induction rows arbitrary: x l)
  case Nil
  then show ?case by simp
next
  case (Cons r rows)
  have r: "r \<noteq> []" "newline \<notin> set r" "int (length r) \<le> INT_MAX"
    using Cons.prems(1) by simp_all
  have bt: "board_text (r # rows) @ rest = r @ newline # (board_text rows @ rest)"
    by (simp add: board_text_def)
  from Life_read_line[of 0 r T "board_text rows @ rest" x l] r
  consider (fail) "isl (Life_read T (r @ newline # (board_text rows @ rest)) x 0 l)"
    | (go) l' where "int (length r) = width l" "width l' = width l"
        "Life_read T (r @ newline # (board_text rows @ rest)) x 0 l
           = Life_read T (board_text rows @ rest) (add32 x 1) 0 l'"
    by auto
  then show ?case
  proof cases
    case fail
    then show ?thesis by (simp only: bt)
  next
    case (go l')
    have "\<not> list_all (\<lambda>r. int (length r) = width l') rows"
      using Cons.prems(2) go(1,2) by simp
    then have "isl (Life_read T (board_text rows @ rest) (add32 x 1) 0 l')"
      using Cons.prems(1) by (intro Cons.IH) simp_all
    then show ?thesis by (simp only: bt go(3))
  qed
qed

lemma Life_ctor_bad_line:
  assumes rows: "list_all (\<lambda>r. r \<noteq> [] \<and> newline \<notin> set r \<and> int (length r) \<le> INT_MAX) rows"
      and bad: "\<not> list_all (\<lambda>r. int (length r) = w) rows"
  shows "isl (Life_ctor T (board_text rows @ rest) h w)"
proof (cases "Life_resized (T_true T) h w")
  case (Inl e)
  then show ?thesis by (simp add: Life_ctor_def)
next
  case (Inr l)
  then have "width l = w" by (auto simp: Life_resized_def Let_def split: if_splits)
  then have "isl (Life_read T (board_text rows @ rest) 0 0 l)"
    using rows bad by (intro Life_read_bad_line) simp_all
  then show ?thesis
    using Inr by (auto simp: Life_ctor_def isl_def)
qed

lemma Life_h_read_total:
  assumes "list_all (\<lambda>c. c = newline \<or> \<not> isl (T_char T c)) inp"
  shows "\<not> isl (Life_h_read T b inp lc w h tb)"
  using assms
proof (induction inp arbitrary: lc w h tb)
  case Nil
  then show ?case by simp
next
  case (Cons c inp)
  show ?case
  proof (cases "c = newline")
    case True
    then show ?thesis using Cons.prems Cons.IH by simp
  next
    case False
    then obtain v where v: "T_char T c = Inr v"
      using Cons.prems by (cases "T_char T c") auto
    show ?thesis
      using Cons.prems v False Cons.IH by (simp add: Let_def)
  qed
qed

lemma Life_h_ctor_total:
  assumes "list_all (\<lambda>c. c = newline \<or> \<not> isl (T_char T c)) (CHR 0x01 # inp)"
  shows "\<not> isl (Life_h_ctor T inp)"
proof -
  have n: "CHR 0x01 \<noteq> newline" by (simp add: newline_def)
  with assms obtain b where b: "T_char T (CHR 0x01) = Inr b"
    by (cases "T_char T (CHR 0x01)") auto
  have "list_all (\<lambda>c. c = newline \<or> \<not> isl (T_char T c)) inp" using assms by simp
  from Life_h_read_total[OF this, of b True 0 0 "[]"]
  obtain r where "Life_h_read T b inp True 0 0 [] = Inr r"
    by (cases "Life_h_read T b inp True 0 0 []") auto
  then show ?thesis by (simp add: Life_h_ctor_def b Let_def split: prod.splits)
qed

lemma Life_ctor_empty:
  "Life_ctor T [] h w =
     (case Life_resized (T_true T) h w of
        Inl e \<Rightarrow> Inl e
      | Inr l \<Rightarrow> if h = 0 then Inr l else Inl AssertFailed)"
  by (auto simp: Life_ctor_def Life_resized_def Let_def split: sum.splits)

lemma Life_h_ctor_empty:
  "Life_h_ctor T [] =
     (case T_char T (CHR 0x01) of
        Inl e \<Rightarrow> Inl e
      | Inr b \<Rightarrow> Inr \<lparr>height_h = 0, width_h = 0, board_h = replicate 4 b\<rparr>)"
  by (simp add: Life_h_ctor_def add32_def int32_def numeral_eq_Suc split: sum.splits)

section \<open>The frame\<close>

text \<open>No number of steps changes a cell outside the interior.\<close>

lemma frame_kept:
  assumes v: "valid l" and s: "storage_fits l" and r: "evolve_n T n l = Inr l'"
  shows "valid l'
       \<and> (\<forall>i < length (board l). \<not> interior (height l) (width l) (int i)
             \<longrightarrow> board l' ! i = board l ! i)
       \<and> (frame_bordered isb l \<longrightarrow> frame_bordered isb l')"
proof -
  have l': "valid l'" "height l' = height l" "width l' = width l"
    "length (board l') = length (board l)"
    "\<forall>i < length (board l). \<not> interior (height l) (width l) (int i)
        \<longrightarrow> board l' ! i = board l ! i"
  proof -
    have "valid l' \<and> height l' = height l \<and> width l' = width l
        \<and> length (board l') = length (board l)
        \<and> (\<forall>i < length (board l). \<not> interior (height l) (width l) (int i)
             \<longrightarrow> board l' ! i = board l ! i)"
    proof (cases "T_trivial_dtor T")
      case True
      from evolve_n_props[OF v s True, of n] r show ?thesis by auto
    next
      case False
      from evolve_n_nontrivial[OF False r] v show ?thesis by (simp add: valid_def)
    qed
    then show "valid l'" "height l' = height l" "width l' = width l"
      "length (board l') = length (board l)"
      "\<forall>i < length (board l). \<not> interior (height l) (width l) (int i)
          \<longrightarrow> board l' ! i = board l ! i"
      by simp_all
  qed
  have "frame_bordered isb l'" if fb: "frame_bordered isb l"
    unfolding frame_bordered_def list_all_iff
  proof
    fix i assume "i \<in> set [0..<length (board l')]"
    then have i: "i < length (board l)" using l'(4) by simp
    then have "i \<in> set [0..<length (board l)]" by simp
    with fb have d: "interior (height l) (width l) (int i) \<or> isb (board l ! i)"
      unfolding frame_bordered_def list_all_iff by blast
    show "interior (height l') (width l') (int i) \<or> isb (board l' ! i)"
    proof (cases "interior (height l) (width l) (int i)")
      case True
      then show ?thesis using l'(2,3) by simp
    next
      case False
      then have "board l' ! i = board l ! i" using l'(5) i by blast
      then show ?thesis using d False by simp
    qed
  qed
  with l' show ?thesis by blast
qed

text \<open>A board constructed from the text of a board has \<open>T(true)\<close> on every frame
  position.\<close>

lemma Life_ctor_frame:
  assumes ok: "text_ok T h w rows" and rest: "rest = [] \<or> hd rest = newline"
      and fits: "(h + 2) * (w + 2) \<le> INT_MAX"
      and c: "Life_ctor T (board_text rows @ rest) h w = Inr l"
  shows "valid l \<and> frame_bordered (\<lambda>c. c = T_true T) l"
proof (cases "T_trivial_dtor T")
  case True
  let ?l = "\<lparr>height = h, width = w, board = parsed_board T h w rows, generation = 0,
             population = alive_count (T_is_alive T) h w (parsed_board T h w rows)\<rparr>"
  have "l = ?l" using Life_ctor_text[OF ok rest fits True] c by simp
  moreover have h: "0 \<le> h" "0 \<le> w" using ok by (auto simp: text_ok_def)
  then have "0 \<le> (w + 2) * (h + 2)" by simp
  then have "valid ?l" using h by (simp add: valid_def parsed_board_def mult.commute)
  moreover have "frame_bordered (\<lambda>c. c = T_true T) ?l"
    by (simp add: frame_bordered_def list_all_iff parsed_board_def)
  ultimately show ?thesis by simp
next
  case False
  have h: "0 \<le> h" "0 \<le> w" using ok by (auto simp: text_ok_def)
  have n: "Life_resized (T_true T) h w = Inr (Life_init T h w)"
    by (rule Life_resized_exact[OF h fits])
  from c obtain x' l0 where
    rd: "Life_read T (board_text rows @ rest) 0 0 (Life_init T h w) = Inr (x', l0)"
    and l: "l = l0"
    by (auto simp: Life_ctor_def n split: sum.splits if_splits)
  have "l = Life_init T h w" using Life_read_nontrivial[OF False rd] l by simp
  then show ?thesis
    using valid_Life_init[OF h, of T]
    by (simp add: frame_bordered_def list_all_iff Life_init_def)
qed

section \<open>The examples, evaluated\<close>

lemma text_ok_blinker: "text_ok (plain_cells False) 3 3 blinker_rows"
  by (simp add: text_ok_def blinker_rows_def plain_cells_def ConwayCell_char_def newline_def)

lemma storage_fits_blinker: "storage_fits blinker"
  by (simp add: storage_fits_def blinker_def INT_MAX_def)

lemma storage_fits_marker_board: "storage_fits marker_board"
  by (simp add: storage_fits_def marker_board_def INT_MAX_def)

lemma Life_ctor_blinker:
  "Life_ctor (plain_cells False) (board_text blinker_rows) 3 3 = Inr blinker"
  by code_simp

lemma evolve_blinker:
  "evolve_all (plain_cells False) blinker = Inr blinker'"
  by code_simp

lemma evolve_n_blinker:
  "evolve_n (plain_cells False) 3 blinker = Inr (blinker'\<lparr>generation := 3\<rparr>)"
  by code_simp

lemma step_pure_blinker:
  "step_pure (plain_cells False) 3 3 (board blinker) = board blinker'"
  by code_simp

lemma alive_count_blinker':
  "alive_count is_alive 3 3 (board blinker') = 3"
  by code_simp

section \<open>Neighbour reads\<close>



text \<open>
  Claim C2. The claim orders the neighbours as up, right, down, left, top-right,
  bottom-right, bottom-left, top-left, with "up" the cell one row above. \<open>at\<close>, \<open>print\<close>
  and the constructor all use \<open>x\<close> as the row and \<open>y\<close> as the column, and on that
  layout the array initialiser of \<open>evolve_all\<close> gathers the transposed order: left,
  below, right, above, bottom-left, bottom-right, top-right, top-left. On the 3 by 3
  board whose cells carry their physical (row, column), the neighbours of the centre
  cell, physical (2, 2), start with (2, 1), the cell one column to the left, where the
  claim has (1, 2), the cell one row above.
\<close>

theorem neighbor_order_is_transposed:
  "neighbors (board marker_board) (width marker_board) 1 1
     = Inr [(2, 1), (3, 2), (2, 3), (1, 2), (3, 1), (3, 3), (1, 3), (1, 1)]"
  by code_simp

section \<open>The accessor\<close>

text \<open>
  Claim C6, as amended. \<open>at(x, y)\<close> checks the flat index only: it fails with
  \<open>std::out_of_range\<close> exactly when the index \<open>(x + 1) * (width + 2) + y + 1\<close>, as
  computed in 32-bit \<open>int\<close>, lies outside the storage. On a valid board whose storage
  size fits \<open>int\<close> it returns the cell for every interior coordinate; for a column \<open>y\<close>
  in \<open>[0, width)\<close> it fails for \<open>x < -1\<close> and for \<open>x > height\<close> as long as the exact
  index fits \<open>int\<close>, and for \<open>x = -1\<close> and \<open>x = height\<close> it returns a frame cell
  instead of failing. Where the exact index does not fit \<open>int\<close>, the index wrapped to
  32 bits decides: on the 3 by 3 board \<open>at(-858993460, 0)\<close> returns the frame cell at
  physical row 0, column 2.
\<close>

theorem at_checks_flat_index_only:
  assumes "valid l" "storage_fits l"
  shows "at_index l x y = int32 (flat_index l x y)
       \<and> (at l x y = Inl OutOfRange \<longleftrightarrow>
            \<not> (0 \<le> at_index l x y \<and> at_index l x y < int (length (board l))))
       \<and> (0 \<le> x \<and> x < height l \<and> 0 \<le> y \<and> y < width l \<longrightarrow>
            at l x y = Inr (board l ! nat (flat_index l x y)))
       \<and> (0 \<le> y \<and> y < width l \<and> (x < -1 \<or> height l < x)
            \<and> INT_MIN \<le> flat_index l x y \<and> flat_index l x y \<le> INT_MAX \<longrightarrow>
            at l x y = Inl OutOfRange)
       \<and> (0 \<le> y \<and> y < width l \<and> (x = -1 \<or> x = height l) \<longrightarrow>
            at l x y = Inr (board l ! nat (flat_index l x y))
            \<and> \<not> interior (height l) (width l) (flat_index l x y))"
proof (intro conjI impI)
  show "at_index l x y = int32 (flat_index l x y)"
    by (rule at_index_int32)
next
  show "at l x y = Inl OutOfRange \<longleftrightarrow>
          \<not> (0 \<le> at_index l x y \<and> at_index l x y < int (length (board l)))"
    by (simp add: at_def vector_at_def)
next
  assume a: "0 \<le> x \<and> x < height l \<and> 0 \<le> y \<and> y < width l"
  then have r: "0 \<le> flat_index l x y \<and> flat_index l x y < int (length (board l))"
    using flat_index_range[OF assms(1), of x y] by simp
  then have "at_index l x y = flat_index l x y"
    using storage_index_exact[OF assms(2,1), of x y] by simp
  then show "at l x y = Inr (board l ! nat (flat_index l x y))"
    using r by (simp add: at_def vector_at_def)
next
  assume a: "0 \<le> y \<and> y < width l \<and> (x < -1 \<or> height l < x)
      \<and> INT_MIN \<le> flat_index l x y \<and> flat_index l x y \<le> INT_MAX"
  then have e: "at_index l x y = flat_index l x y"
    by (intro at_index_exact) simp_all
  have "flat_index l x y < 0 \<or> int (length (board l)) \<le> flat_index l x y"
    using a flat_index_below[of l y x] flat_index_above[OF assms(1), of y x] assms(1)
    by (auto simp: valid_def)
  then show "at l x y = Inl OutOfRange"
    by (auto simp: at_def vector_at_def e)
next
  assume a: "0 \<le> y \<and> y < width l \<and> (x = -1 \<or> x = height l)"
  have r: "0 \<le> flat_index l x y \<and> flat_index l x y < int (length (board l))"
    using idx_bound[of "x + 1" "height l" "y + 1" "width l"] a assms(1)
    by (auto simp: flat_index_eq valid_def)
  then have "at_index l x y = flat_index l x y"
    using storage_index_exact[OF assms(2,1), of x y] by simp
  then show "at l x y = Inr (board l ! nat (flat_index l x y))"
    using r by (simp add: at_def vector_at_def)
next
  assume a: "0 \<le> y \<and> y < width l \<and> (x = -1 \<or> x = height l)"
  have w: "0 \<le> width l" using assms(1) by (simp add: valid_def)
  show "\<not> interior (height l) (width l) (flat_index l x y)"
    using a interior_flat[OF w, of "y + 1" "height l" "x + 1"]
    by (auto simp: flat_index_eq)
qed

theorem at_checks_flat_index_only_witness:
  "valid marker_board \<and> storage_fits marker_board
   \<and> at marker_board 1 1 = Inr (2, 2)
   \<and> at marker_board (-2) 0 = Inl OutOfRange
   \<and> at marker_board 4 2 = Inl OutOfRange
   \<and> at marker_board 3 0 = Inr (4, 1)
   \<and> at_index marker_board (-858993460) 0 = 2
   \<and> at marker_board (-858993460) 0 = Inr (0, 2)"
proof -
  note t = at_checks_flat_index_only[OF valid_marker_board storage_fits_marker_board]
  have i: "flat_index marker_board 1 1 = 12" "flat_index marker_board 3 0 = 21"
          "flat_index marker_board (-2) 0 = -4" "flat_index marker_board 4 2 = 28"
          "flat_index marker_board (-858993460) 0 = -4294967294"
    by (simp_all add: flat_index_def marker_board_def)
  have b: "board marker_board ! 12 = (2, 2)" "board marker_board ! 21 = (4, 1)"
          "board marker_board ! 2 = (0, 2)"
    by (simp_all add: marker_board_def)
  have w: "int32 (-4294967294) = 2" by (simp add: int32_def)
  have "at marker_board 1 1 = Inr (2, 2)"
    using t[of 1 1] i b by (simp add: marker_board_def)
  moreover have "at marker_board (-2) 0 = Inl OutOfRange"
    using t[of "-2" 0] i by (simp add: marker_board_def INT_MIN_def INT_MAX_def)
  moreover have "at marker_board 4 2 = Inl OutOfRange"
    using t[of 4 2] i by (simp add: marker_board_def INT_MIN_def INT_MAX_def)
  moreover have "at marker_board 3 0 = Inr (4, 1)"
    using t[of 3 0] i b by (simp add: marker_board_def)
  moreover have k: "at_index marker_board (-858993460) 0 = 2"
    using t[of "-858993460" 0] i w by simp
  moreover have "at marker_board (-858993460) 0 = Inr (0, 2)"
    using k b by (simp add: at_def vector_at_def marker_board_def)
  ultimately show ?thesis using valid_marker_board storage_fits_marker_board by simp
qed

text \<open>Claim C6 as stated fails: \<open>at(-1, 0)\<close> does not fail, it returns the frame cell
  at physical row 0, column 1.\<close>

theorem at_minus_one_returns_frame_cell:
  "at marker_board (-1) 0 = Inr (0, 1)"
  by code_simp

section \<open>Traversal\<close>

text \<open>With a positive width, the \<open>n\<close>-th increment from \<open>begin()\<close> stands at row
  \<open>n div width\<close>, column \<open>n mod width\<close>: the traversal is row-major from \<open>(0, 0)\<close>.\<close>

lemma iterator_row_major:
  assumes "0 < width l"
  shows "(iterator_incr l ^^ n) (Life_begin l)
           = \<lparr>it_x = int n div width l, it_y = int n mod width l\<rparr>"
  by (rule iterator_incr_pos[OF assms])

text \<open>\<open>end()\<close> is \<open>(height - 1, width)\<close>, a column that \<open>operator++\<close> never leaves in
  place, so no number of increments from \<open>begin()\<close> compares equal to \<open>end()\<close>.\<close>

lemma iterator_never_end:
  assumes "0 < width l"
  shows "\<not> iterator_eq ((iterator_incr l ^^ n) (Life_begin l)) (Life_end l)"
proof
  assume "iterator_eq ((iterator_incr l ^^ n) (Life_begin l)) (Life_end l)"
  then have "int n mod width l = width l"
    by (simp add: iterator_incr_pos[OF assms] iterator_eq_def Life_end_def)
  moreover have "int n mod width l < width l" using assms by simp
  ultimately show False by linarith
qed

text \<open>
  Claim C10. The claim has the iterator compare equal to \<open>end()\<close> after
  \<open>height * width\<close> increments from \<open>begin()\<close>. On the 3 by 3 blinker board the ninth
  increment stands at \<open>(3, 0)\<close>, \<open>end()\<close> is \<open>(2, 3)\<close>, and \<open>operator==\<close> is false.
\<close>

theorem iterator_misses_end:
  "(iterator_incr blinker ^^ 9) (Life_begin blinker) = \<lparr>it_x = 3, it_y = 0\<rparr>
   \<and> Life_end blinker = \<lparr>it_x = 2, it_y = 3\<rparr>
   \<and> iterator_eq ((iterator_incr blinker ^^ 9) (Life_begin blinker)) (Life_end blinker) = False"
  by code_simp

section \<open>The generation step\<close>

text \<open>
  Claim C1. The claim has \<open>evolve_all\<close> return the board of the synchronous update.
  Every iteration of its inner loop ends with \<open>at(x, y).~T(); at(x, y) = new_cell;\<close>:
  the stored cell is destroyed and then assigned to. \<open>ConwayCell\<close> has a virtual
  destructor, so on the blinker board the first interior cell already reaches the
  undefined assignment, and \<open>evolve_all\<close> returns no board. The snapshot logic by
  itself is sound: for a cell type with a trivial destructor \<open>evolve_all\<close> returns the
  horizontal blinker, the board that the pure step computes (on every valid board:
  lemma \<open>evolve_all_eq\<close>; that no board with an interior cell gets a result from a
  cell class of the sources: lemma \<open>evolve_all_undefined\<close>).
\<close>

theorem evolve_all_assigns_to_destroyed_cell:
  "evolve_cell (ConwayCell_class False) (board blinker) 0 0 (blinker\<lparr>population := 0\<rparr>)
     = Inl AssignToDestroyed
   \<and> evolve_all (ConwayCell_class False) blinker = Inl AssignToDestroyed
   \<and> evolve_all (plain_cells False) blinker = Inr blinker'
   \<and> step_pure (plain_cells False) 3 3 (board blinker) = board blinker'"
  by code_simp

text \<open>
  Claim C3. The claim has \<open>population\<close> equal the number of alive interior cells right
  after construction, and has every \<open>evolve_all\<close> add exactly 1 to \<open>generation\<close> and
  count \<open>population\<close> anew. The constructor asserts \<open>y == width\<close> at a newline only:
  from a star, a newline and a second star, for \<open>h = w = 1\<close>, both assertions pass,
  the second star is stored on the frame and counted, and \<open>population\<close> is 2 on a
  board with one alive interior cell (with a cell type whose destructor is trivial).
  With \<open>ConwayCell\<close> itself the first cell read reaches the assignment to a destroyed
  cell, in the constructor as in \<open>evolve_all\<close>, and no counter is delivered. And
  \<open>generation++\<close> at \<open>INT_MAX\<close> leaves \<open>INT_MIN\<close>. What holds: for a cell type with
  a trivial destructor the constructor counts the alive cells of the text of an \<open>h\<close> by
  \<open>w\<close> board (lemma \<open>Life_ctor_text\<close>), and \<open>evolve_all\<close> recounts the population and
  increments the generation in \<open>int\<close> (lemmas \<open>evolve_all_props\<close>, \<open>evolve_n_props\<close>).
\<close>

theorem population_counts_frame_cells:
  "Life_ctor (plain_cells False) ''*\<newline>*'' 1 1 = Inr overrun_board
   \<and> valid overrun_board
   \<and> population overrun_board = 2
   \<and> alive_count is_alive 1 1 (board overrun_board) = 1
   \<and> Life_ctor (ConwayCell_class False) ''*\<newline>*'' 1 1 = Inl AssignToDestroyed
   \<and> Life_ctor (ConwayCell_class False) ''*\<newline>'' 1 1 = Inl AssignToDestroyed
   \<and> evolve_all (plain_cells False) (blinker\<lparr>generation := INT_MAX\<rparr>)
        = Inr (blinker'\<lparr>generation := INT_MIN\<rparr>)"
  by code_simp

section \<open>The Conway rule\<close>

text \<open>
  Claim C4, for the rule modelled from the spec. A Conway cell that is not a border cell
  is alive after \<open>evolve\<close> iff it is alive and exactly 2 or 3 neighbours are alive, or
  dead and exactly 3 neighbours are alive, where a border neighbour counts as dead
  whatever its \<open>alive\<close> member holds; the result is again no border cell. On a border
  cell \<open>evolve\<close> is a no-op, so a dead border cell stays a dead border cell.
\<close>

theorem ConwayCell_evolve_rule:
  "(\<not> is_border c \<longrightarrow>
      (is_alive (ConwayCell_evolve c ns) \<longleftrightarrow>
         (is_alive c \<and> (live_neighbors ns = 2 \<or> live_neighbors ns = 3))
         \<or> (\<not> is_alive c \<and> live_neighbors ns = 3))
      \<and> \<not> is_border (ConwayCell_evolve c ns))
   \<and> (is_border c \<longrightarrow> ConwayCell_evolve c ns = c)
   \<and> (is_border c \<and> \<not> is_alive c \<longrightarrow>
        is_border (ConwayCell_evolve c ns) \<and> \<not> is_alive (ConwayCell_evolve c ns))
   \<and> live_neighbors (ns @ [n]) = live_neighbors ns + (if is_alive n \<and> \<not> is_border n then 1 else 0)
   \<and> live_neighbors [] = 0"
  by (simp add: ConwayCell_evolve_def live_neighbors_def is_alive_def is_border_def)

theorem ConwayCell_evolve_rule_witness:
  "is_alive (ConwayCell_evolve cA [cB, cD, cA, cB, cB, cA, cB, cB])
   \<and> \<not> is_alive (ConwayCell_evolve cA [cB, cD, cA, cB, cB, cD, cB, cB])
   \<and> is_alive (ConwayCell_evolve cD [cA, cD, cA, cB, cB, cA, cB, cB])
   \<and> \<not> is_alive (ConwayCell_evolve cD [cA, cA, cA, cB, cB, cA, cB, cB])
   \<and> ConwayCell_evolve cB [cA, cA, cA, cD, cD, cD, cD, cD] = cB
   \<and> live_neighbors [\<lparr>alive = True, border = True\<rparr>, cA, cA] = 2"
proof -
  have n: "live_neighbors [cB, cD, cA, cB, cB, cA, cB, cB] = 2"
          "live_neighbors [cB, cD, cA, cB, cB, cD, cB, cB] = 1"
          "live_neighbors [cA, cD, cA, cB, cB, cA, cB, cB] = 3"
          "live_neighbors [cA, cA, cA, cB, cB, cA, cB, cB] = 4"
          "live_neighbors [\<lparr>alive = True, border = True\<rparr>, cA, cA] = 2"
    by (simp_all add: live_neighbors_def cA_def cB_def cD_def is_alive_def is_border_def)
  have f: "\<not> is_border cA" "is_alive cA" "\<not> is_border cD" "\<not> is_alive cD" "is_border cB"
    by (simp_all add: cA_def cB_def cD_def is_alive_def is_border_def)
  show ?thesis
    using ConwayCell_evolve_rule[of cA "[cB, cD, cA, cB, cB, cA, cB, cB]"]
          ConwayCell_evolve_rule[of cA "[cB, cD, cA, cB, cB, cD, cB, cB]"]
          ConwayCell_evolve_rule[of cD "[cA, cD, cA, cB, cB, cA, cB, cB]"]
          ConwayCell_evolve_rule[of cD "[cA, cA, cA, cB, cB, cA, cB, cB]"]
          ConwayCell_evolve_rule[of cB "[cA, cA, cA, cD, cD, cD, cD, cD]"]
          n f
    by simp
qed

section \<open>Border cells\<close>

text \<open>
  Claim C5. The claim has every frame position hold a cell with \<open>border == true\<close> and
  \<open>alive == false\<close> after any number of steps. \<open>ConwayCell(true)\<close> sets \<open>border\<close> and
  never writes \<open>alive\<close>, so the frame cells carry an indeterminate \<open>alive\<close>. Where that
  member reads as true: all nine cells of the one by one board are alive border cells
  right after \<open>resize\<close>, before the first cell is read; the board of height 0 and
  width 1 built from the empty text has at physical index 0 a border cell that is
  alive, and a step leaves the whole frame as it is; and for a cell type with the same
  members and a trivial destructor, the board built from the text of one alive cell has
  such a border cell at physical index 0 before and after a step. That no step
  overwrites a frame position is lemma \<open>frame_kept\<close>; that construction leaves
  \<open>T(true)\<close> on every frame position is lemma \<open>Life_ctor_frame\<close>.
\<close>

theorem frame_cell_alive_is_indeterminate:
  "Life_resized (T_true (ConwayCell_class True)) 1 1
        = Inr \<lparr>height = 1, width = 1,
               board = replicate 9 \<lparr>alive = True, border = True\<rparr>,
               generation = 0, population = 0\<rparr>
   \<and> Life_ctor (ConwayCell_class True) [] 0 1 = Inr live_frame_board
   \<and> is_border (board live_frame_board ! 0) \<and> is_alive (board live_frame_board ! 0)
   \<and> evolve_all (ConwayCell_class True) live_frame_board
        = Inr (live_frame_board\<lparr>generation := 1\<rparr>)
   \<and> Life_ctor (plain_cells True) ''*\<newline>'' 1 1 = Inr live_frame_cell_board
   \<and> is_border (board live_frame_cell_board ! 0) \<and> is_alive (board live_frame_cell_board ! 0)
   \<and> evolve_all (plain_cells True) live_frame_cell_board
        = Inr (live_frame_cell_board\<lparr>board := (board live_frame_cell_board)[4 := cD],
                 population := 0, generation := 1\<rparr>)"
  by code_simp




section \<open>Malformed text\<close>

text \<open>
  Claim C8, as amended. \<open>Life(std::istream&)\<close> of \<open>Life.h\<close>, which infers the
  dimensions, has no failure for jagged or empty text: it returns a board for every
  text whose characters, and the character with code 1 that \<open>T(true)\<close> converts to,
  the cell constructor accepts, and for the empty text a board of height and width 0
  with four border cells. \<open>Life(std::istream&, int h, int w)\<close> returns no board when
  the text begins with newline-terminated lines that are all non-empty (and of at most
  \<open>INT_MAX\<close> characters) and one of them has a length other than \<open>w\<close>; on the empty
  text it returns the board of border cells if \<open>h\<close> is 0 and the size is not negative,
  and no board otherwise.
\<close>

theorem construction_failures:
  "(list_all (\<lambda>c. c = newline \<or> \<not> isl (T_char T c)) (CHR 0x01 # inp) \<longrightarrow>
      \<not> isl (Life_h_ctor T inp))
   \<and> Life_h_ctor T [] =
       (case T_char T (CHR 0x01) of
          Inl e \<Rightarrow> Inl e
        | Inr b \<Rightarrow> Inr \<lparr>height_h = 0, width_h = 0, board_h = replicate 4 b\<rparr>)
   \<and> (list_all (\<lambda>r. r \<noteq> [] \<and> newline \<notin> set r \<and> int (length r) \<le> INT_MAX) rows
        \<and> \<not> list_all (\<lambda>r. int (length r) = w) rows \<longrightarrow>
      isl (Life_ctor T (board_text rows @ rest) h w))
   \<and> Life_ctor T [] h w =
       (case Life_resized (T_true T) h w of
          Inl e \<Rightarrow> Inl e
        | Inr l \<Rightarrow> if h = 0 then Inr l else Inl AssertFailed)"
  using Life_h_ctor_total[of T inp] Life_h_ctor_empty[of T]
        Life_ctor_bad_line[of rows w T rest h] Life_ctor_empty[of T h w]
  by blast

theorem construction_failures_witness:
  "\<not> isl (Life_h_ctor char_cells ''**\<newline>*\<newline>'')
   \<and> Life_h_ctor char_cells [] =
       Inr \<lparr>height_h = 0, width_h = 0, board_h = [CHR 0x01, CHR 0x01, CHR 0x01, CHR 0x01]\<rparr>
   \<and> isl (Life_ctor (plain_cells False) (board_text [''**'', ''*'']) 2 2)
   \<and> Life_ctor (plain_cells False) (board_text [''**'', ''*'']) 2 2 = Inl AssertFailed
   \<and> Life_ctor (plain_cells False) [] 2 2 = Inl AssertFailed"
proof -
  note t = construction_failures[of char_cells "''**\<newline>*\<newline>''"]
  note u = construction_failures[of "plain_cells False" "[]" "[''**'', ''*'']" 2 "[]" 2]
  have p: "list_all (\<lambda>c. c = newline \<or> \<not> isl (T_char char_cells c))
             (CHR 0x01 # ''**\<newline>*\<newline>'')"
    by (simp add: char_cells_def)
  have c: "T_char char_cells (CHR 0x01) = Inr (CHR 0x01)"
    by (simp add: char_cells_def)
  have r: "list_all (\<lambda>r. r \<noteq> [] \<and> newline \<notin> set r \<and> int (length r) \<le> INT_MAX)
             [''**'', ''*'']"
          "\<not> list_all (\<lambda>r. int (length r) = 2) [''**'', ''*'']"
    by (simp_all add: newline_def INT_MAX_def)
  have e: "Life_ctor (plain_cells False) (board_text [''**'', ''*'']) 2 2 = Inl AssertFailed"
    by code_simp
  have z: "Life_resized (T_true (plain_cells False)) 2 2
             = Inr \<lparr>height = 2, width = 2, board = replicate 16 (T_true (plain_cells False)),
                    generation = 0, population = 0\<rparr>"
    by (simp add: Life_resized_def Let_def mul32_def add32_def int32_def)
  show ?thesis using t u p c r e z by (simp add: numeral_eq_Suc)
qed

text \<open>Claim C8 as stated fails: on a line of two characters followed by a line of one,
  \<open>Life(std::istream&)\<close> reports nothing and builds a board of 15 cells for a height
  and width of 2; on the empty text it builds the empty board.\<close>

theorem jagged_text_builds_a_board:
  "Life_h_ctor char_cells ''**\<newline>*\<newline>'' = Inr jagged_board
   \<and> length (board_h jagged_board) = 15
   \<and> (height_h jagged_board + 2) * (width_h jagged_board + 2) = 16
   \<and> Life_h_ctor char_cells [] =
       Inr \<lparr>height_h = 0, width_h = 0, board_h = [CHR 0x01, CHR 0x01, CHR 0x01, CHR 0x01]\<rparr>"
  by code_simp

end
